theory Spec2Isabelle
  imports Complex_Main "HOL-Library.AList" "HOL-Library.Code_Target_Nat"
begin

section \<open>Python values\<close>

text \<open>
  The bridge of \<^verbatim>\<open>environment.py\<close> works on Python dictionaries whose values are
  numbers, strings and lists. The values are modelled by one datatype. A float is a
  finite value, carried as the rational number it equals (\<open>PFloat\<close>; the zero there is
  the positive zero), or one of the four floats that no rational stands for: nan, the two
  infinities and the negative zero. A string is a text of code points below 256. Object
  identity is not modelled: two values are the same when they are equal terms.
\<close>

datatype special_float = Nan | Pos_inf | Neg_inf | Neg_zero

datatype pyval =
    PNone
  | PBool bool
  | PInt int
  | PFloat rat
  | PSpecial special_float
  | PStr string
  | PList "pyval list"

text \<open>A dictionary keeps its insertion order: an association list with distinct keys.\<close>

type_synonym pydict = "(string \<times> pyval) list"

datatype py_error =
    KeyError string | TypeError | ValueError | IndexError | OverflowError | UnicodeDecodeError

definition bindE :: "'e + 'a \<Rightarrow> ('a \<Rightarrow> 'e + 'b) \<Rightarrow> 'e + 'b" where
  "bindE m f = (case m of Inl e \<Rightarrow> Inl e | Inr x \<Rightarrow> f x)"

text \<open>\<^verbatim>\<open>d[k]\<close> raises KeyError on a missing key; \<^verbatim>\<open>d[k] = v\<close> replaces the value of a
  present key where it stands and appends a new key at the end.\<close>

definition getitem :: "pydict \<Rightarrow> string \<Rightarrow> py_error + pyval" where
  "getitem d k = (case map_of d k of None \<Rightarrow> Inl (KeyError k) | Some v \<Rightarrow> Inr v)"

definition setitem :: "pydict \<Rightarrow> string \<Rightarrow> pyval \<Rightarrow> pydict" where
  "setitem d k v = AList.update k v d"

subsection \<open>Numbers and comparisons\<close>

text \<open>
  bool, int and float are the numeric types; True counts as 1 and False as 0. \<open>num_of\<close>
  is the value of a number that is finite (both zeros have the value 0); \<open>xnum_of\<close> is
  the value of any number, for the comparisons, which Python decides exactly between an
  int and a float: nan is neither below, above nor equal to anything, itself included.
\<close>

fun num_of :: "pyval \<Rightarrow> rat option" where
  "num_of (PBool b) = Some (if b then 1 else 0)"
| "num_of (PInt i) = Some (of_int i)"
| "num_of (PFloat r) = Some r"
| "num_of (PSpecial Neg_zero) = Some 0"
| "num_of v = None"

datatype xnum = Fin rat | Inf_pos | Inf_neg | Unordered

fun xnum_of :: "pyval \<Rightarrow> xnum option" where
  "xnum_of (PSpecial Nan) = Some Unordered"
| "xnum_of (PSpecial Pos_inf) = Some Inf_pos"
| "xnum_of (PSpecial Neg_inf) = Some Inf_neg"
| "xnum_of v = map_option Fin (num_of v)"

fun xnum_lt :: "xnum \<Rightarrow> xnum \<Rightarrow> bool" where
  "xnum_lt (Fin x) (Fin y) = (x < y)"
| "xnum_lt (Fin x) Inf_pos = True"
| "xnum_lt Inf_neg (Fin y) = True"
| "xnum_lt Inf_neg Inf_pos = True"
| "xnum_lt a b = False"

fun xnum_eq :: "xnum \<Rightarrow> xnum \<Rightarrow> bool" where
  "xnum_eq (Fin x) (Fin y) = (x = y)"
| "xnum_eq Inf_pos Inf_pos = True"
| "xnum_eq Inf_neg Inf_neg = True"
| "xnum_eq a b = False"

fun is_list :: "pyval \<Rightarrow> bool" where
  "is_list (PList xs) = True"
| "is_list v = False"

text \<open>\<^verbatim>\<open>==\<close> never raises: numbers compare by value across the numeric types, strings and
  lists compare with their own kind, everything else is unequal.\<close>

fun py_eq :: "pyval \<Rightarrow> pyval \<Rightarrow> bool"
  and py_eq_list :: "pyval list \<Rightarrow> pyval list \<Rightarrow> bool" where
  "py_eq (PList xs) (PList ys) = py_eq_list xs ys"
| "py_eq (PStr s) (PStr t) = (s = t)"
| "py_eq PNone PNone = True"
| "py_eq a b = (case (xnum_of a, xnum_of b) of (Some x, Some y) \<Rightarrow> xnum_eq x y | _ \<Rightarrow> False)"
| "py_eq_list [] [] = True"
| "py_eq_list (x # xs) (y # ys) = (py_eq x y \<and> py_eq_list xs ys)"
| "py_eq_list xs ys = False"

text \<open>Strings are ordered by code point, lexicographically.\<close>

fun str_lt :: "string \<Rightarrow> string \<Rightarrow> bool" where
  "str_lt [] t = (t \<noteq> [])"
| "str_lt (c # s) [] = False"
| "str_lt (c # s) (d # t) = (if c = d then str_lt s t else (of_char c :: nat) < of_char d)"

text \<open>\<^verbatim>\<open>a < b\<close>: defined between two numbers, two strings and two lists (at the first
  pair of unequal elements, else by length); TypeError otherwise.\<close>

fun py_lt :: "pyval \<Rightarrow> pyval \<Rightarrow> py_error + bool"
  and py_lt_list :: "pyval list \<Rightarrow> pyval list \<Rightarrow> py_error + bool" where
  "py_lt (PList xs) (PList ys) = py_lt_list xs ys"
| "py_lt (PStr s) (PStr t) = Inr (str_lt s t)"
| "py_lt a b =
     (case (xnum_of a, xnum_of b) of (Some x, Some y) \<Rightarrow> Inr (xnum_lt x y) | _ \<Rightarrow> Inl TypeError)"
| "py_lt_list [] ys = Inr (ys \<noteq> [])"
| "py_lt_list (x # xs) [] = Inr False"
| "py_lt_list (x # xs) (y # ys) = (if py_eq x y then py_lt_list xs ys else py_lt x y)"

definition py_gt :: "pyval \<Rightarrow> pyval \<Rightarrow> py_error + bool" where
  "py_gt a b = py_lt b a"

text \<open>\<^verbatim>\<open>v in [c1, ..., cn]\<close> compares \<open>v\<close> with each element by \<^verbatim>\<open>==\<close>.\<close>

definition py_in :: "pyval \<Rightarrow> pyval list \<Rightarrow> bool" where
  "py_in v xs = list_ex (py_eq v) xs"

text \<open>\<^verbatim>\<open>min\<close> and \<open>max\<close> of a list: ValueError on the empty list, else a left-to-right
  scan that replaces the best element by a strictly smaller (larger) one.\<close>

fun min_loop :: "pyval \<Rightarrow> pyval list \<Rightarrow> py_error + pyval" where
  "min_loop best [] = Inr best"
| "min_loop best (x # xs) =
     (case py_lt x best of Inl e \<Rightarrow> Inl e | Inr b \<Rightarrow> min_loop (if b then x else best) xs)"

fun max_loop :: "pyval \<Rightarrow> pyval list \<Rightarrow> py_error + pyval" where
  "max_loop best [] = Inr best"
| "max_loop best (x # xs) =
     (case py_gt x best of Inl e \<Rightarrow> Inl e | Inr b \<Rightarrow> max_loop (if b then x else best) xs)"

fun py_min :: "pyval \<Rightarrow> py_error + pyval" where
  "py_min (PList []) = Inl ValueError"
| "py_min (PList (x # xs)) = min_loop x xs"
| "py_min v = Inl TypeError"

fun py_max :: "pyval \<Rightarrow> py_error + pyval" where
  "py_max (PList []) = Inl ValueError"
| "py_max (PList (x # xs)) = max_loop x xs"
| "py_max v = Inl TypeError"

section \<open>Strings\<close>

text \<open>
  The string methods the codec calls. \<^verbatim>\<open>str.strip()\<close> removes the white space from
  both ends: among the code points below 256 these are the space, the tab, the line
  feed, the vertical tab, the form feed, the carriage return, the four separator controls,
  the next line (0x85) and the no-break space (0xA0). \<^verbatim>\<open>lstrip(chars)\<close> and
  \<^verbatim>\<open>rstrip(chars)\<close> remove the characters of \<open>chars\<close> from one end.
\<close>

definition is_space :: "char \<Rightarrow> bool" where
  "is_space c = (c \<in> set [CHR '' '', CHR 0x09, CHR 0x0A, CHR 0x0B, CHR 0x0C, CHR 0x0D,
                          CHR 0x1C, CHR 0x1D, CHR 0x1E, CHR 0x1F, CHR 0x85, CHR 0xA0])"

definition rstrip_with :: "(char \<Rightarrow> bool) \<Rightarrow> string \<Rightarrow> string" where
  "rstrip_with p s = rev (dropWhile p (rev s))"

definition strip :: "string \<Rightarrow> string" where
  "strip s = rstrip_with is_space (dropWhile is_space s)"

definition lstrip_chars :: "string \<Rightarrow> string \<Rightarrow> string" where
  "lstrip_chars chars s = dropWhile (\<lambda>c. c \<in> set chars) s"

definition rstrip_chars :: "string \<Rightarrow> string \<Rightarrow> string" where
  "rstrip_chars chars s = rstrip_with (\<lambda>c. c \<in> set chars) s"

text \<open>
  \<^verbatim>\<open>s.split(sep)\<close> cuts \<open>s\<close> at the occurrences of \<open>sep\<close>, found from left to right
  without overlap, and keeps the empty pieces; the result always has at least one piece.
  The source calls it with the separators \<^verbatim>\<open>')('\<close> and \<^verbatim>\<open>' '\<close> only (Python rejects
  the empty separator).
\<close>

fun split_from :: "string \<Rightarrow> string \<Rightarrow> string \<Rightarrow> string list" where
  "split_from sep cur [] = [cur]"
| "split_from sep cur (c # cs) =
     (if sep \<noteq> [] \<and> take (length sep) (c # cs) = sep
      then cur # split_from sep [] (drop (length sep - 1) cs)
      else split_from sep (cur @ [c]) cs)"

definition py_split :: "string \<Rightarrow> string \<Rightarrow> string list" where
  "py_split sep s = split_from sep [] s"

text \<open>\<^verbatim>\<open>sep.join(xs)\<close> and \<^verbatim>\<open>sub in s\<close>.\<close>

fun join :: "string \<Rightarrow> string list \<Rightarrow> string" where
  "join sep [] = []"
| "join sep [x] = x"
| "join sep (x # y # ys) = x @ sep @ join sep (y # ys)"

fun contains :: "string \<Rightarrow> string \<Rightarrow> bool" where
  "contains sub [] = (sub = [])"
| "contains sub (c # cs) = (take (length sub) (c # cs) = sub \<or> contains sub cs)"

subsection \<open>Numbers as text\<close>

text \<open>\<^verbatim>\<open>str(i)\<close> of an int: its decimal digits, with a minus sign when negative.\<close>

fun digits_of :: "nat \<Rightarrow> string" where
  "digits_of n =
     (if n < 10 then [char_of (48 + n)]
      else digits_of (n div 10) @ [char_of (48 + n mod 10)])"

definition str_int :: "int \<Rightarrow> string" where
  "str_int i = (if i < 0 then CHR ''-'' # digits_of (nat (- i)) else digits_of (nat i))"

text \<open>
  \<^verbatim>\<open>float(i)\<close> of an int: the binary64 value nearest to it, a tie to the one with the
  even significand; an int of up to 53 bits is its own value. OverflowError (\<open>None\<close>)
  when the rounded value does not fit.
\<close>

fun bit_length :: "nat \<Rightarrow> nat" where
  "bit_length n = (if n = 0 then 0 else Suc (bit_length (n div 2)))"

definition round_to_53 :: "nat \<Rightarrow> nat" where
  "round_to_53 n =
     (let len = bit_length n in
      if len \<le> 53 then n
      else
        let shift = len - 53;
            q = n div 2 ^ shift;
            r = n mod 2 ^ shift;
            half = 2 ^ (shift - 1)
        in (if half < r \<or> (r = half \<and> odd q) then q + 1 else q) * 2 ^ shift)"

definition double_of_int :: "int \<Rightarrow> rat option" where
  "double_of_int i =
     (let m = round_to_53 (nat \<bar>i\<bar>) in
      if 2 ^ 1024 \<le> m then None else Some (if i < 0 then - of_nat m else of_nat m))"

text \<open>
  \<^verbatim>\<open>'%.3f' % v\<close> needs a number and turns a bool or an int into a float first. A finite
  float is written with three decimals, rounding its exact value to the nearest
  thousandth and a tie to the even one; a negative number keeps its sign even when it
  rounds to zero, and so does the negative zero. nan and the infinities are written by
  name, without decimals.
\<close>

definition round_half_even :: "rat \<Rightarrow> int" where
  "round_half_even x =
     (let f = \<lfloor>x\<rfloor>; d = x - of_int f
      in if d < 1 / 2 then f else if 1 / 2 < d then f + 1 else if even f then f else f + 1)"

definition fixed3 :: "rat \<Rightarrow> string" where
  "fixed3 x =
     (let n = nat (round_half_even (\<bar>x\<bar> * 1000))
      in (if x < 0 then ''-'' else []) @ digits_of (n div 1000) @ ''.''
         @ [char_of (48 + n div 100 mod 10), char_of (48 + n div 10 mod 10),
            char_of (48 + n mod 10)])"

fun format_3f :: "pyval \<Rightarrow> py_error + string" where
  "format_3f (PBool b) = Inr (fixed3 (if b then 1 else 0))"
| "format_3f (PInt i) =
     (case double_of_int i of None \<Rightarrow> Inl OverflowError | Some x \<Rightarrow> Inr (fixed3 x))"
| "format_3f (PFloat r) = Inr (fixed3 r)"
| "format_3f (PSpecial Nan) = Inr ''nan''"
| "format_3f (PSpecial Pos_inf) = Inr ''inf''"
| "format_3f (PSpecial Neg_inf) = Inr ''-inf''"
| "format_3f (PSpecial Neg_zero) = Inr ''-0.000''"
| "format_3f v = Inl TypeError"

text \<open>
  \<^verbatim>\<open>str(x)\<close>. The text of None, of a bool, of an int and of a string is written out.
  The text of a float (the shortest digits that read back as the same binary64 value) and
  of a list is Python's \<^verbatim>\<open>repr\<close>, which is not defined here: it is the parameter
  \<open>repr\<close>.
\<close>

fun py_str :: "(pyval \<Rightarrow> string) \<Rightarrow> pyval \<Rightarrow> string" where
  "py_str repr PNone = ''None''"
| "py_str repr (PBool b) = (if b then ''True'' else ''False'')"
| "py_str repr (PInt i) = str_int i"
| "py_str repr (PStr s) = s"
| "py_str repr v = repr v"

text \<open>
  \<^verbatim>\<open>float(text)\<close>, as CPython reads a string. A code point from 127 on is replaced, by
  a space when it is white space and by a question mark otherwise (which no literal
  holds). An underscore may stand between two digits only, and is dropped. The white
  space of C (space, tab, line feed, vertical tab, form feed, carriage return) around the
  literal is ignored. The literal is an optional sign and then inf, infinity or nan
  in any case, or digits with an optional fraction (at least one digit on one side of
  the point) and an optional exponent. \<open>None\<close> stands for ValueError.

  The value is the exact value of the literal when it lies within the range of binary64:
  a magnitude that rounds beyond the largest finite float reads as an infinity, one that
  rounds below the smallest reads as a zero, and the sign stays. The rounding of a value
  within the range to the nearest binary64 value is not modelled.
\<close>

definition is_digit :: "char \<Rightarrow> bool" where
  "is_digit c = (48 \<le> (of_char c :: nat) \<and> (of_char c :: nat) \<le> 57)"

definition digit_val :: "char \<Rightarrow> nat" where
  "digit_val c = of_char c - 48"

definition nat_of_digits :: "string \<Rightarrow> nat" where
  "nat_of_digits ds = foldl (\<lambda>n c. 10 * n + digit_val c) 0 ds"

definition c_space :: "char \<Rightarrow> bool" where
  "c_space c = (c \<in> set [CHR '' '', CHR 0x09, CHR 0x0A, CHR 0x0B, CHR 0x0C, CHR 0x0D])"

definition to_ascii :: "string \<Rightarrow> string" where
  "to_ascii s =
     map (\<lambda>c. if (of_char c :: nat) < 127 then c
               else if is_space c then CHR '' ''
               else CHR ''?'') s"

fun underscores_ok :: "bool \<Rightarrow> string \<Rightarrow> bool" where
  "underscores_ok after_digit [] = True"
| "underscores_ok after_digit (c # cs) =
     (if c = CHR ''_''
      then after_digit \<and> cs \<noteq> [] \<and> is_digit (hd cs) \<and> underscores_ok False cs
      else underscores_ok (is_digit c) cs)"

fun take_sign :: "string \<Rightarrow> bool \<times> string" where
  "take_sign [] = (False, [])"
| "take_sign (c # cs) =
     (if c = CHR ''-'' then (True, cs)
      else if c = CHR ''+'' then (False, cs)
      else (False, c # cs))"

definition lower_char :: "char \<Rightarrow> char" where
  "lower_char c =
     (if 65 \<le> (of_char c :: nat) \<and> (of_char c :: nat) \<le> 90 then char_of (of_char c + 32 :: nat)
      else c)"

definition scale10 :: "rat \<Rightarrow> int \<Rightarrow> rat" where
  "scale10 m e = (if 0 \<le> e then m * 10 ^ nat e else m / 10 ^ nat (- e))"

text \<open>The magnitudes from \<open>2 ^ 1024 - 2 ^ 970\<close> on round beyond the largest finite
  float, those up to \<open>1 / 2 ^ 1075\<close> round to zero; both bounds are written out.\<close>

definition overflow_bound :: rat where
  "overflow_bound =
     179769313486231580793728971405303415079934132710037826936173778980444968292764750946649017977587207096330286416692887910946555547851940402630657488671505820681908902000708383676273854845817711531764475730270069855571366959622842914819860834936475292719074168444365510704342711559699508093042880177904174497792"

definition underflow_bound :: rat where
  "underflow_bound =
     1 / 404804506614621236704990693437834614099113299528284236713802716054860679135990693783920767402874248990374155728633623822779617474771586953734026799881477019843034848553132722728933815484186432682479535356945490137124014966849385397236206711298319112681620113024717539104666829230461005064372655017292012526615415482186989568"

definition float_value :: "bool \<Rightarrow> rat \<Rightarrow> pyval" where
  "float_value neg m =
     (if overflow_bound \<le> m then PSpecial (if neg then Neg_inf else Pos_inf)
      else if m \<le> underflow_bound then (if neg then PSpecial Neg_zero else PFloat 0)
      else PFloat (if neg then - m else m))"

definition float_of :: "string \<Rightarrow> pyval option" where
  "float_of text =
     (let s0 = to_ascii text in
      if \<not> underscores_ok False s0 then None
      else
        let s = rstrip_with c_space (dropWhile c_space (filter (\<lambda>c. c \<noteq> CHR ''_'') s0));
            (neg, u) = take_sign s;
            word = map lower_char u
        in if word = ''inf'' \<or> word = ''infinity''
           then Some (PSpecial (if neg then Neg_inf else Pos_inf))
           else if word = ''nan'' then Some (PSpecial Nan)
           else
             let ip = takeWhile is_digit u;
                 r1 = dropWhile is_digit u;
                 (fp, r2) = (case r1 of
                               [] \<Rightarrow> ([], [])
                             | c # r \<Rightarrow>
                                 if c = CHR ''.''
                                 then (takeWhile is_digit r, dropWhile is_digit r)
                                 else ([], c # r));
                 mant = of_nat (nat_of_digits (ip @ fp))
             in if ip = [] \<and> fp = [] then None
                else (case r2 of
                        [] \<Rightarrow> Some (float_value neg (scale10 mant (- int (length fp))))
                      | c # r \<Rightarrow>
                          if c = CHR ''e'' \<or> c = CHR ''E''
                          then (let (eneg, ed) = take_sign r in
                                if ed \<noteq> [] \<and> list_all is_digit ed
                                then Some (float_value neg (scale10 mant
                                       ((if eneg then - 1 else 1) * int (nat_of_digits ed)
                                        - int (length fp))))
                                else None)
                          else None))"

section \<open>Action validation\<close>

text \<open>\<^verbatim>\<open>Client.limit_action(v, lo, hi)\<close>.\<close>

definition limit_action :: "pyval \<Rightarrow> pyval \<Rightarrow> pyval \<Rightarrow> py_error + pyval" where
  "limit_action v lo hi =
     bindE (py_lt v lo) (\<lambda>below.
       if below then Inr lo
       else bindE (py_gt v hi) (\<lambda>above.
         if above then Inr hi else Inr v))"

text \<open>
  \<^verbatim>\<open>Client.limit_actions(actions)\<close> mutates the dictionary statement by statement. Each
  statement is a function from the dictionary to an error or the updated dictionary; a
  statement that raises leaves the dictionary as the statements before it left it.
\<close>

definition clamp_item :: "string \<Rightarrow> int \<Rightarrow> int \<Rightarrow> pydict \<Rightarrow> py_error + pydict" where
  "clamp_item k lo hi actions =
     bindE (getitem actions k) (\<lambda>v.
       bindE (limit_action v (PInt lo) (PInt hi)) (\<lambda>r.
         Inr (setitem actions k r)))"

definition reset_item :: "string \<Rightarrow> int list \<Rightarrow> pydict \<Rightarrow> py_error + pydict" where
  "reset_item k allowed actions =
     bindE (getitem actions k) (\<lambda>v.
       if \<not> py_in v (map PInt allowed) then Inr (setitem actions k (PInt 0))
       else Inr actions)"

definition focus_bad :: "pydict \<Rightarrow> py_error + bool" where
  "focus_bad actions =
     bindE (getitem actions ''focus'') (\<lambda>f.
       if \<not> is_list f then Inr True
       else bindE (getitem actions ''focus'') (\<lambda>f1.
         bindE (py_min f1) (\<lambda>lo.
           bindE (py_lt lo (PInt (- 180))) (\<lambda>below.
             if below then Inr True
             else bindE (getitem actions ''focus'') (\<lambda>f2.
               bindE (py_max f2) (\<lambda>hi.
                 py_gt hi (PInt 180)))))))"

definition reset_focus :: "pydict \<Rightarrow> py_error + pydict" where
  "reset_focus actions =
     bindE (focus_bad actions) (\<lambda>bad.
       if bad then Inr (setitem actions ''focus'' (PInt 0)) else Inr actions)"

fun run_statements :: "(pydict \<Rightarrow> py_error + pydict) list \<Rightarrow> pydict \<Rightarrow> pydict \<times> py_error option" where
  "run_statements [] d = (d, None)"
| "run_statements (stmt # rest) d =
     (case stmt d of Inl e \<Rightarrow> (d, Some e) | Inr d' \<Rightarrow> run_statements rest d')"

text \<open>The result is the dictionary as the call leaves it and the exception raised, if any.\<close>

definition limit_actions :: "pydict \<Rightarrow> pydict \<times> py_error option" where
  "limit_actions actions =
     run_statements
       [clamp_item ''steer'' (- 1) 1,
        clamp_item ''brake'' 0 1,
        clamp_item ''accel'' 0 1,
        clamp_item ''clutch'' 0 1,
        reset_item ''gear'' [- 1, 0, 1, 2, 3, 4, 5, 6],
        reset_item ''meta'' [0, 1],
        reset_focus]
       actions"

section \<open>The wire codec\<close>

text \<open>
  \<^verbatim>\<open>Client.encode_actions(actions)\<close>: the loop over the dictionary in its order, with
  the text built so far in \<open>out\<close>. A value that is not a list goes through
  \<^verbatim>\<open>'%.3f'\<close>, which raises TypeError on a value that is not a number.
\<close>

fun encode_loop :: "(pyval \<Rightarrow> string) \<Rightarrow> pydict \<Rightarrow> string \<Rightarrow> py_error + string" where
  "encode_loop repr [] out = Inr out"
| "encode_loop repr ((k, v) # rest) out =
     (let out = out @ ''('' @ k @ '' '' in
      bindE (case v of
               PList xs \<Rightarrow> Inr (out @ join '' '' (map (py_str repr) xs))
             | _ \<Rightarrow> bindE (format_3f v) (\<lambda>text. Inr (out @ text)))
        (\<lambda>out. encode_loop repr rest (out @ '')'')))"

definition encode_actions :: "(pyval \<Rightarrow> string) \<Rightarrow> pydict \<Rightarrow> py_error + string" where
  "encode_actions repr actions = encode_loop repr actions []"

text \<open>
  \<^verbatim>\<open>Client.destringify(string)\<close>: a falsy argument is returned as it is; a string is
  read as a float, and returned unchanged when it is not one (the ValueError branch); a
  list of one element gives the element's value, a longer list the list of its elements'
  values. An argument of any other type falls through both tests and the call returns
  None.
\<close>

fun destringify :: "pyval \<Rightarrow> pyval" where
  "destringify (PStr s) =
     (if s = [] then PStr s
      else (case float_of s of Some value \<Rightarrow> value | None \<Rightarrow> PStr s))"
| "destringify (PList []) = PList []"
| "destringify (PList [x]) = destringify x"
| "destringify (PList (x # y # zs)) = PList (map destringify (x # y # zs))"
| "destringify PNone = PNone"
| "destringify (PBool b) = (if b then PNone else PBool b)"
| "destringify (PInt i) = (if i = 0 then PInt i else PNone)"
| "destringify (PFloat r) = (if r = 0 then PFloat r else PNone)"
| "destringify (PSpecial s) = (if s = Neg_zero then PSpecial s else PNone)"

text \<open>
  \<^verbatim>\<open>Client.parse_server_string(server_string)\<close>: the loop over the segments, with the
  dictionary built so far; \<^verbatim>\<open>w[0]\<close> raises IndexError on an empty \<open>w\<close>.
\<close>

fun parse_loop :: "string list \<Rightarrow> pydict \<Rightarrow> py_error + pydict" where
  "parse_loop [] track_data = Inr track_data"
| "parse_loop (i # rest) track_data =
     (case py_split '' '' i of
        [] \<Rightarrow> Inl IndexError
      | k # toks \<Rightarrow>
          parse_loop rest (setitem track_data k (destringify (PList (map PStr toks)))))"

definition parse_server_string :: "string \<Rightarrow> py_error + pydict" where
  "parse_server_string server_string =
     (let server_string = butlast (strip server_string);
          server_string_list =
            py_split '')('' (rstrip_chars '')'' (lstrip_chars ''('' (strip server_string)))
      in parse_loop server_string_list [])"

section \<open>The environment\<close>

text \<open>
  The methods of \<^verbatim>\<open>Environment\<close> act on the simulator process and on the socket. What
  they do to the world is recorded as the list of the calls they make on the server and
  the client and of the lines they print, in order.
\<close>

datatype event =
    Print string
  | Server_restart
  | Client_restart
  | Client_send_restart_request

text \<open>\<^verbatim>\<open>abs(v)\<close>: the absolute value of a number (an int for a bool, nan for nan),
  TypeError otherwise.\<close>

fun py_abs :: "pyval \<Rightarrow> py_error + pyval" where
  "py_abs (PBool b) = Inr (PInt (if b then 1 else 0))"
| "py_abs (PInt i) = Inr (PInt \<bar>i\<bar>)"
| "py_abs (PFloat r) = Inr (PFloat \<bar>r\<bar>)"
| "py_abs (PSpecial Nan) = Inr (PSpecial Nan)"
| "py_abs (PSpecial Neg_zero) = Inr (PFloat 0)"
| "py_abs (PSpecial s) = Inr (PSpecial Pos_inf)"
| "py_abs v = Inl TypeError"

definition restart_environment :: "event list" where
  "restart_environment = [Server_restart, Client_restart]"

definition restart_race :: "bool \<Rightarrow> event list" where
  "restart_race gui =
     (if gui then [Client_send_restart_request, Client_restart] else restart_environment)"

definition check_sensors :: "bool \<Rightarrow> pydict \<Rightarrow> py_error + event list" where
  "check_sensors gui sensors =
     bindE (getitem sensors ''trackPos'') (\<lambda>pos.
       bindE (py_abs pos) (\<lambda>dist.
         bindE (py_gt dist (PInt 1)) (\<lambda>off_track.
           if off_track then Inr (Print ''out of track!'' # restart_race gui)
           else Inr [])))"

subsection \<open>The handshake\<close>

text \<open>
  \<^verbatim>\<open>Client.connect_to_server()\<close> loops until a reply carries the marker. The network is
  a script with one entry for each turn of the loop: the send fails (the process exits
  with status -1), the receive times out or fails (any \<^verbatim>\<open>socket.error\<close>), a datagram
  arrives that is not UTF-8 (its decoding raises UnicodeDecodeError, which the handler
  of \<^verbatim>\<open>socket.error\<close> does not catch), or a datagram arrives (as the text decoded from
  it). The loop is run against a finite script: it returns, it exits the process, it
  raises, or it is still running, with its counter, when the script ends.
\<close>

datatype net = Send_error | Recv_error | Undecodable | Datagram string

datatype outcome = Returned | Exited int | Raised py_error | Running int

definition identify :: string where
  "identify = ''***identified***''"

fun connect_loop :: "int \<Rightarrow> int \<Rightarrow> net list \<Rightarrow> event list \<times> outcome" where
  "connect_loop port tries [] = ([], Running tries)"
| "connect_loop port tries (Send_error # script) = ([], Exited (- 1))"
| "connect_loop port tries (Recv_error # script) =
     (let waiting = Print (''Waiting for server on port '' @ str_int port);
          tries = tries - 1;
          escalation =
            (if tries = 0
             then [Print ''Server didn't answer, sending restart signal'', Server_restart]
             else []);
          (later, out) =
            (if contains identify []
             then ([Print (''Client connected on port '' @ str_int port)], Returned)
             else connect_loop port tries script)
      in (waiting # escalation @ later, out))"
| "connect_loop port tries (Undecodable # script) = ([], Raised UnicodeDecodeError)"
| "connect_loop port tries (Datagram sockdata # script) =
     (if contains identify sockdata
      then ([Print (''Client connected on port '' @ str_int port)], Returned)
      else connect_loop port tries script)"

definition connect_to_server :: "int \<Rightarrow> net list \<Rightarrow> event list \<times> outcome" where
  "connect_to_server port script = connect_loop port 3 script"

text \<open>The number of calls of \<^verbatim>\<open>Server.restart()\<close> in a trace.\<close>

definition restarts :: "event list \<Rightarrow> nat" where
  "restarts evs = length (filter (\<lambda>e. e = Server_restart) evs)"

section \<open>Predicates of the specification\<close>

subsection \<open>The ranges of the specification\<close>

text \<open>A finite number within the closed interval from \<open>lo\<close> to \<open>hi\<close>; a focus that is
  a non-empty list of finite numbers within -180 and 180; a value equal to one of the
  listed integers.\<close>

definition in_range :: "rat \<Rightarrow> rat \<Rightarrow> pyval \<Rightarrow> bool" where
  "in_range lo hi v = (case num_of v of Some r \<Rightarrow> lo \<le> r \<and> r \<le> hi | None \<Rightarrow> False)"

definition focus_in_range :: "pyval \<Rightarrow> bool" where
  "focus_in_range f = (case f of PList xs \<Rightarrow> xs \<noteq> [] \<and> list_all (in_range (- 180) 180) xs | _ \<Rightarrow> False)"

definition num_in :: "pyval \<Rightarrow> int list \<Rightarrow> bool" where
  "num_in v allowed = list_ex (\<lambda>i. num_of v = Some (of_int i)) allowed"

text \<open>A finite number (a bool, an int, a float that is neither nan nor an infinity), and
  a focus on which the range test of the validator is defined: any value that is not a
  list, or a list that is not empty and holds finite numbers only.\<close>

definition finite_number :: "pyval \<Rightarrow> bool" where
  "finite_number v = (num_of v \<noteq> None)"

definition focus_checkable :: "pyval \<Rightarrow> bool" where
  "focus_checkable f = (case f of PList xs \<Rightarrow> xs \<noteq> [] \<and> list_all finite_number xs | _ \<Rightarrow> True)"

subsection \<open>The records of the clamp example\<close>

text \<open>The record of the specification's clamp example, with the fields it leaves open
  set within their ranges, and the record that \<^verbatim>\<open>limit_actions\<close> makes of it; and a
  record with every field on the other side of its range.\<close>

definition example_actions :: pydict where
  "example_actions =
     [(''steer'', PInt 5), (''brake'', PInt 0), (''accel'', PFloat (1 / 2)),
      (''clutch'', PInt 0), (''gear'', PInt 9), (''meta'', PInt 2),
      (''focus'', PList [PInt 200])]"

definition example_validated :: pydict where
  "example_validated =
     [(''steer'', PInt 1), (''brake'', PInt 0), (''accel'', PFloat (1 / 2)),
      (''clutch'', PInt 0), (''gear'', PInt 0), (''meta'', PInt 0),
      (''focus'', PInt 0)]"

definition example_below :: pydict where
  "example_below =
     [(''steer'', PFloat (- 3)), (''brake'', PFloat (- 1 / 2)), (''accel'', PInt 2),
      (''clutch'', PInt (- 1)), (''gear'', PInt (- 2)), (''meta'', PInt (- 1)),
      (''focus'', PList [PInt (- 200), PInt 10])]"

subsection \<open>The turns of the handshake\<close>

text \<open>
  The turns of a script. An entry ends the loop when the send fails, when the reply
  cannot be decoded and when the reply carries the marker; a timeout and a reply without
  the marker send the loop round again. \<open>timeouts\<close> counts the timeouts the loop meets
  before the entry that ends it, \<open>ending\<close> is that entry, if the script has one.
\<close>

fun ends_loop :: "net \<Rightarrow> bool" where
  "ends_loop Send_error = True"
| "ends_loop Recv_error = False"
| "ends_loop Undecodable = True"
| "ends_loop (Datagram sockdata) = contains identify sockdata"

definition timeouts :: "net list \<Rightarrow> nat" where
  "timeouts script =
     length (filter (\<lambda>e. e = Recv_error) (takeWhile (\<lambda>e. \<not> ends_loop e) script))"

definition ending :: "net list \<Rightarrow> net option" where
  "ending script =
     (case dropWhile (\<lambda>e. \<not> ends_loop e) script of [] \<Rightarrow> None | e # rest \<Rightarrow> Some e)"

fun outcome_of :: "int \<Rightarrow> net option \<Rightarrow> outcome" where
  "outcome_of tries None = Running tries"
| "outcome_of tries (Some Send_error) = Exited (- 1)"
| "outcome_of tries (Some Undecodable) = Raised UnicodeDecodeError"
| "outcome_of tries (Some e) = Returned"

subsection \<open>Tokens of the wire text\<close>

text \<open>A key or a value token that the wire text carries unchanged: not empty, and free
  of white space and of parentheses.\<close>

definition plain_token :: "string \<Rightarrow> bool" where
  "plain_token t = (t \<noteq> [] \<and> list_all (\<lambda>c. \<not> is_space c \<and> c \<noteq> CHR ''('' \<and> c \<noteq> CHR '')'') t)"

text \<open>
  A datagram of the simulator, as the list of its groups: each group is a key and the
  tokens of its value. \<open>segment_of\<close> is the text of a group between its parentheses,
  \<open>datagram_of\<close> the text of the groups one after the other. \<open>plain_groups\<close> are
  groups, at least one, with distinct keys, whose keys and tokens are plain.
  \<open>readings\<close> is the record that holds, under each key, what \<^verbatim>\<open>destringify\<close> makes of
  the tokens of the group.
\<close>

definition segment_of :: "string \<times> string list \<Rightarrow> string" where
  "segment_of g = join '' '' (fst g # snd g)"

definition datagram_of :: "(string \<times> string list) list \<Rightarrow> string" where
  "datagram_of gs = concat (map (\<lambda>g. ''('' @ segment_of g @ '')'') gs)"

definition plain_groups :: "(string \<times> string list) list \<Rightarrow> bool" where
  "plain_groups gs =
     (gs \<noteq> [] \<and> distinct (map fst gs)
      \<and> list_all (\<lambda>g. plain_token (fst g) \<and> list_all plain_token (snd g)) gs)"

definition readings :: "(string \<times> string list) list \<Rightarrow> pydict" where
  "readings gs = map (\<lambda>g. (fst g, destringify (PList (map PStr (snd g))))) gs"

section \<open>Properties of the action validator\<close>

lemmas validator_defs =
  limit_actions_def clamp_item_def reset_item_def reset_focus_def focus_bad_def
  getitem_def setitem_def bindE_def limit_action_def py_gt_def py_in_def

subsection \<open>Dictionary access\<close>

lemma getitem_Inr: "getitem d k = Inr v \<longleftrightarrow> map_of d k = Some v"
  by (simp add: getitem_def split: option.splits)

lemma map_of_setitem: "map_of (setitem d k v) k' = (if k' = k then Some v else map_of d k')"
  by (simp add: setitem_def update_conv')

lemma keys_setitem: "map_of d k = Some w \<Longrightarrow> map fst (setitem d k v) = map fst d"
  by (simp add: setitem_def update_keys) (metis domI dom_map_of_conv_image_fst)

lemma setitem_same: "map_of d k = Some v \<Longrightarrow> setitem d k v = d"
  by (simp add: setitem_def update_triv)

lemma limit_action_cases:
  "limit_action v lo hi = Inr r \<Longrightarrow> r = lo \<or> r = hi \<or> (r = v \<and> py_lt v lo = Inr False \<and> py_gt v hi = Inr False)"
  by (auto simp: limit_action_def bindE_def split: sum.splits if_splits)

lemma limit_action_idem:
  assumes "limit_action v (PInt lo) (PInt hi) = Inr r" and "lo \<le> hi"
  shows "limit_action r (PInt lo) (PInt hi) = Inr r"
  using limit_action_cases [OF assms(1)] assms(2)
  by (auto simp: limit_action_def bindE_def py_gt_def)

lemma clamp_item_result:
  assumes "clamp_item k lo hi d = Inr d'" and "lo \<le> hi"
  shows "\<exists>r. map_of d' k = Some r \<and> limit_action r (PInt lo) (PInt hi) = Inr r"
    and "k' \<noteq> k \<Longrightarrow> map_of d' k' = map_of d k'"
    and "map fst d' = map fst d"
  using assms
  by (auto simp: clamp_item_def bindE_def getitem_Inr map_of_setitem keys_setitem limit_action_idem split: sum.splits)

lemma clamp_item_fix:
  "map_of d k = Some r \<Longrightarrow> limit_action r (PInt lo) (PInt hi) = Inr r \<Longrightarrow> clamp_item k lo hi d = Inr d"
  by (simp add: clamp_item_def bindE_def getitem_def setitem_same)

lemma py_in_zero: "0 \<in> set allowed \<Longrightarrow> py_in (PInt 0) (map PInt allowed)"
  by (auto simp: py_in_def list_ex_iff)

lemma reset_item_result:
  assumes "reset_item k allowed d = Inr d'" and "0 \<in> set allowed"
  shows "\<exists>r. map_of d' k = Some r \<and> py_in r (map PInt allowed)"
    and "k' \<noteq> k \<Longrightarrow> map_of d' k' = map_of d k'"
    and "map fst d' = map fst d"
  using assms
  by (auto simp: reset_item_def bindE_def getitem_Inr map_of_setitem keys_setitem py_in_zero split: sum.splits if_splits)

lemma reset_item_fix:
  "map_of d k = Some r \<Longrightarrow> py_in r (map PInt allowed) \<Longrightarrow> reset_item k allowed d = Inr d"
  by (simp add: reset_item_def bindE_def getitem_def)

lemma focus_bad_Inr: "focus_bad d = Inr b \<Longrightarrow> \<exists>f. map_of d ''focus'' = Some f"
  by (auto simp: focus_bad_def bindE_def getitem_Inr split: sum.splits)

lemma focus_bad_not_list: "map_of d ''focus'' = Some f \<Longrightarrow> \<not> is_list f \<Longrightarrow> focus_bad d = Inr True"
  by (simp add: focus_bad_def bindE_def getitem_def)

lemma reset_focus_result:
  assumes "reset_focus d = Inr d'"
  shows "reset_focus d' = Inr d'"
    and "k' \<noteq> ''focus'' \<Longrightarrow> map_of d' k' = map_of d k'"
    and "map fst d' = map fst d"
proof -
  obtain bad where bad: "focus_bad d = Inr bad"
    and d': "d' = (if bad then setitem d ''focus'' (PInt 0) else d)"
    using assms by (auto simp: reset_focus_def bindE_def split: sum.splits if_splits)
  obtain f where f: "map_of d ''focus'' = Some f"
    using focus_bad_Inr [OF bad] by blast
  show "reset_focus d' = Inr d'"
  proof (cases bad)
    case True
    have m: "map_of d' ''focus'' = Some (PInt 0)" using True d' by (simp add: map_of_setitem)
    have "focus_bad d' = Inr True" by (rule focus_bad_not_list [OF m]) simp
    then show ?thesis using m by (simp add: reset_focus_def bindE_def setitem_same)
  next
    case False
    then show ?thesis using bad d' by (simp add: reset_focus_def bindE_def)
  qed
  show "k' \<noteq> ''focus'' \<Longrightarrow> map_of d' k' = map_of d k'"
    using d' by (simp add: map_of_setitem)
  show "map fst d' = map fst d"
    using d' f by (simp add: keys_setitem)
qed


lemma run_statements_inv:
  assumes "\<And>s e e'. s \<in> set stmts \<Longrightarrow> s e = Inr e' \<Longrightarrow> Q e' = Q e"
  shows "Q (fst (run_statements stmts d)) = Q d"
  using assms
proof (induction stmts arbitrary: d)
  case Nil
  then show ?case by simp
next
  case (Cons s stmts)
  show ?case
  proof (cases "s d")
    case (Inl e)
    then show ?thesis by simp
  next
    case (Inr d1)
    have "Q (fst (run_statements stmts d1)) = Q d1"
    proof (rule Cons.IH)
      fix t e e'
      assume "t \<in> set stmts" and "t e = Inr e'"
      then show "Q e' = Q e" using Cons.prems [of t e e'] by simp
    qed
    moreover have "Q d1 = Q d"
      using Cons.prems [of s d d1] Inr by simp
    ultimately show ?thesis using Inr by simp
  qed
qed

lemma run_statements_Cons_ok:
  "run_statements (s # rest) d = (d', None) \<Longrightarrow> \<exists>d1. s d = Inr d1 \<and> run_statements rest d1 = (d', None)"
  by (cases "s d") auto

lemma run_statements_fix:
  "\<forall>s \<in> set stmts. s d = Inr d \<Longrightarrow> run_statements stmts d = (d, None)"
  by (induction stmts) auto

lemma statement_frame:
  assumes "s \<in> set [clamp_item ''steer'' (- 1) 1, clamp_item ''brake'' 0 1, clamp_item ''accel'' 0 1,
        clamp_item ''clutch'' 0 1, reset_item ''gear'' [- 1, 0, 1, 2, 3, 4, 5, 6],
        reset_item ''meta'' [0, 1], reset_focus]"
    and "s e = Inr e'"
    and "k \<notin> set [''steer'', ''brake'', ''accel'', ''clutch'', ''gear'', ''meta'', ''focus'']"
  shows "map_of e' k = map_of e k"
  using assms clamp_item_result(2) [of _ _ _ e e' k] reset_item_result(2) [of _ _ e e' k]
    reset_focus_result(2) [of e e' k]
  by auto

lemma statement_keys:
  assumes "s \<in> set [clamp_item ''steer'' (- 1) 1, clamp_item ''brake'' 0 1, clamp_item ''accel'' 0 1,
        clamp_item ''clutch'' 0 1, reset_item ''gear'' [- 1, 0, 1, 2, 3, 4, 5, 6],
        reset_item ''meta'' [0, 1], reset_focus]"
    and "s e = Inr e'"
  shows "map fst e' = map fst e"
  using assms clamp_item_result(3) [of _ _ _ e e'] reset_item_result(3) [of _ _ e e']
    reset_focus_result(3) [of e e']
  by auto

subsection \<open>Frame of the validator\<close>

text \<open>
  Claim C10. \<^verbatim>\<open>limit_actions\<close> assigns to the keys steer, brake, accel, clutch, gear,
  meta and focus only: every other key keeps its value, and no key is added, removed or
  moved, whether the call returns or raises part-way.
\<close>

theorem limit_actions_frame:
  assumes "k \<notin> set [''steer'', ''brake'', ''accel'', ''clutch'', ''gear'', ''meta'', ''focus'']"
  shows "map_of (fst (limit_actions actions)) k = map_of actions k
    \<and> map fst (fst (limit_actions actions)) = map fst actions"
proof
  show "map_of (fst (limit_actions actions)) k = map_of actions k"
    unfolding limit_actions_def
    by (rule run_statements_inv [where Q = "\<lambda>d. map_of d k"]) (rule statement_frame [OF _ _ assms])
  show "map fst (fst (limit_actions actions)) = map fst actions"
    unfolding limit_actions_def
    by (rule run_statements_inv [where Q = "map fst"]) (rule statement_keys)
qed

theorem limit_actions_frame_witness:
  "map_of (fst (limit_actions
     [(''steer'', PInt 5), (''brake'', PInt 0), (''accel'', PFloat (1 / 2)),
      (''clutch'', PInt 0), (''gear'', PInt 9), (''meta'', PInt 2),
      (''focus'', PList [PInt 200]), (''note'', PStr ''lap'')])) ''note''
   = Some (PStr ''lap'')
   \<and> map fst (fst (limit_actions
     [(''steer'', PInt 5), (''brake'', PInt 0), (''accel'', PFloat (1 / 2)),
      (''clutch'', PInt 0), (''gear'', PInt 9), (''meta'', PInt 2),
      (''focus'', PList [PInt 200]), (''note'', PStr ''lap'')]))
   = [''steer'', ''brake'', ''accel'', ''clutch'', ''gear'', ''meta'', ''focus'', ''note'']"
  using limit_actions_frame [of "''note''"
     "[(''steer'', PInt 5), (''brake'', PInt 0), (''accel'', PFloat (1 / 2)),
      (''clutch'', PInt 0), (''gear'', PInt 9), (''meta'', PInt 2),
      (''focus'', PList [PInt 200]), (''note'', PStr ''lap'')]"]
  by simp

subsection \<open>Idempotence of the validator\<close>

text \<open>
  Claim C8. A dictionary that \<^verbatim>\<open>limit_actions\<close> has validated without raising is left
  as it is by a second call, which does not raise either.
\<close>

theorem limit_actions_idempotent:
  assumes "limit_actions a = (a', None)"
  shows "limit_actions a' = (a', None)"
proof -
  from assms obtain d1 d2 d3 d4 d5 d6 where
    s1: "clamp_item ''steer'' (- 1) 1 a = Inr d1" and
    s2: "clamp_item ''brake'' 0 1 d1 = Inr d2" and
    s3: "clamp_item ''accel'' 0 1 d2 = Inr d3" and
    s4: "clamp_item ''clutch'' 0 1 d3 = Inr d4" and
    s5: "reset_item ''gear'' [- 1, 0, 1, 2, 3, 4, 5, 6] d4 = Inr d5" and
    s6: "reset_item ''meta'' [0, 1] d5 = Inr d6" and
    s7: "reset_focus d6 = Inr a'"
    unfolding limit_actions_def
    apply -
    apply (drule run_statements_Cons_ok, elim exE conjE)+
    apply simp
    done
  note f2 = clamp_item_result(2) [OF s2] and f3 = clamp_item_result(2) [OF s3]
    and f4 = clamp_item_result(2) [OF s4] and f5 = reset_item_result(2) [OF s5]
    and f6 = reset_item_result(2) [OF s6] and f7 = reset_focus_result(2) [OF s7]
  have e1: "clamp_item ''steer'' (- 1) 1 a' = Inr a'"
  proof -
    obtain r where "map_of d1 ''steer'' = Some r" "limit_action r (PInt (- 1)) (PInt 1) = Inr r"
      using clamp_item_result(1) [OF s1] by auto
    moreover have "map_of a' ''steer'' = map_of d1 ''steer''"
      by (simp add: f2 f3 f4 f5 f6 f7)
    ultimately show ?thesis by (simp add: clamp_item_fix)
  qed
  have e2: "clamp_item ''brake'' 0 1 a' = Inr a'"
  proof -
    obtain r where "map_of d2 ''brake'' = Some r" "limit_action r (PInt 0) (PInt 1) = Inr r"
      using clamp_item_result(1) [OF s2] by auto
    moreover have "map_of a' ''brake'' = map_of d2 ''brake''"
      by (simp add: f3 f4 f5 f6 f7)
    ultimately show ?thesis by (simp add: clamp_item_fix)
  qed
  have e3: "clamp_item ''accel'' 0 1 a' = Inr a'"
  proof -
    obtain r where "map_of d3 ''accel'' = Some r" "limit_action r (PInt 0) (PInt 1) = Inr r"
      using clamp_item_result(1) [OF s3] by auto
    moreover have "map_of a' ''accel'' = map_of d3 ''accel''"
      by (simp add: f4 f5 f6 f7)
    ultimately show ?thesis by (simp add: clamp_item_fix)
  qed
  have e4: "clamp_item ''clutch'' 0 1 a' = Inr a'"
  proof -
    obtain r where "map_of d4 ''clutch'' = Some r" "limit_action r (PInt 0) (PInt 1) = Inr r"
      using clamp_item_result(1) [OF s4] by auto
    moreover have "map_of a' ''clutch'' = map_of d4 ''clutch''"
      by (simp add: f5 f6 f7)
    ultimately show ?thesis by (simp add: clamp_item_fix)
  qed
  have e5: "reset_item ''gear'' [- 1, 0, 1, 2, 3, 4, 5, 6] a' = Inr a'"
  proof -
    obtain r where "map_of d5 ''gear'' = Some r" "py_in r (map PInt [- 1, 0, 1, 2, 3, 4, 5, 6])"
      using reset_item_result(1) [OF s5] by auto
    moreover have "map_of a' ''gear'' = map_of d5 ''gear''"
      by (simp add: f6 f7)
    ultimately show ?thesis by (simp add: reset_item_fix)
  qed
  have e6: "reset_item ''meta'' [0, 1] a' = Inr a'"
  proof -
    obtain r where "map_of d6 ''meta'' = Some r" "py_in r (map PInt [0, 1])"
      using reset_item_result(1) [OF s6] by auto
    moreover have "map_of a' ''meta'' = map_of d6 ''meta''"
      by (simp add: f7)
    ultimately show ?thesis by (simp add: reset_item_fix)
  qed
  have e7: "reset_focus a' = Inr a'"
    by (rule reset_focus_result(1) [OF s7])
  show ?thesis
    unfolding limit_actions_def
    by (rule run_statements_fix) (simp add: e1 e2 e3 e4 e5 e6 e7)
qed

theorem limit_actions_idempotent_witness:
  "limit_actions example_actions = (example_validated, None)
   \<and> limit_actions example_validated = (example_validated, None)"
proof -
  have first: "limit_actions example_actions = (example_validated, None)"
    by (simp add: example_actions_def example_validated_def validator_defs)
  from first limit_actions_idempotent [OF first] show ?thesis by (rule conjI)
qed

subsection \<open>The empty focus list\<close>

text \<open>
  Claim C3. \<^verbatim>\<open>limit_actions\<close> is not total: on a well-formed action dictionary whose
  focus is the empty list, \<^verbatim>\<open>min(actions['focus'])\<close> raises ValueError after the six
  statements before it have run.
\<close>

theorem limit_actions_empty_focus_raises:
  "limit_actions
     [(''steer'', PInt 0), (''brake'', PInt 0), (''accel'', PInt 0),
      (''clutch'', PInt 0), (''gear'', PInt 0), (''meta'', PInt 0),
      (''focus'', PList [])]
   = ([(''steer'', PInt 0), (''brake'', PInt 0), (''accel'', PInt 0),
       (''clutch'', PInt 0), (''gear'', PInt 0), (''meta'', PInt 0),
       (''focus'', PList [])], Some ValueError)"
  by (simp add: validator_defs)

subsection \<open>The rules of the validator\<close>

lemma xnum_of_finite: "num_of a = Some x \<Longrightarrow> xnum_of a = Some (Fin x)"
proof (cases a)
  case (PSpecial s)
  assume "num_of a = Some x"
  with PSpecial show ?thesis by (cases s) simp_all
qed simp_all

lemma py_lt_xnum:
  assumes "xnum_of a = Some x" and "xnum_of b = Some y"
  shows "py_lt a b = Inr (xnum_lt x y)"
proof -
  have na: "a \<noteq> PNone" "\<And>s. a \<noteq> PStr s" "\<And>xs. a \<noteq> PList xs"
    using assms(1) by auto
  have nb: "b \<noteq> PNone" "\<And>s. b \<noteq> PStr s" "\<And>xs. b \<noteq> PList xs"
    using assms(2) by auto
  show ?thesis
    using assms na nb by (cases a; cases b) simp_all
qed

lemma py_lt_finite:
  "num_of a = Some x \<Longrightarrow> num_of b = Some y \<Longrightarrow> py_lt a b = Inr (x < y)"
  using py_lt_xnum [OF xnum_of_finite xnum_of_finite] by simp

lemma py_eq_PInt: "py_eq v (PInt i) \<longleftrightarrow> num_of v = Some (of_int i)"
proof (cases v)
  case (PSpecial s)
  then show ?thesis by (cases s) auto
qed auto

lemma py_in_num_in: "py_in v (map PInt allowed) = num_in v allowed"
  by (simp add: py_in_def num_in_def list_ex_iff py_eq_PInt del: py_eq.simps)

lemma limit_action_finite:
  assumes "num_of v = Some x"
  shows "limit_action v (PInt lo) (PInt hi)
    = Inr (if x < of_int lo then PInt lo else if of_int hi < x then PInt hi else v)"
proof -
  have "py_lt v (PInt lo) = Inr (x < of_int lo)"
    by (rule py_lt_finite [OF assms]) simp
  moreover have "py_lt (PInt hi) v = Inr (of_int hi < x)"
    by (rule py_lt_finite [OF _ assms]) simp
  ultimately show ?thesis
    by (simp add: limit_action_def bindE_def py_gt_def)
qed

lemma clamped_num:
  assumes "num_of v = Some x" and "lo \<le> hi"
  shows "num_of (if x < of_int lo then PInt lo else if of_int hi < x then PInt hi else v)
    = Some (max (of_int lo) (min (of_int hi) x))"
proof -
  have "(of_int lo :: rat) \<le> of_int hi" using assms(2) by simp
  then show ?thesis using assms(1) by (auto simp: max_def min_def)
qed

lemma finite_numberD: "finite_number v \<Longrightarrow> \<exists>r. num_of v = Some r"
  by (simp add: finite_number_def)

lemma min_loop_finite:
  assumes "num_of best = Some b" and "\<And>v. v \<in> set xs \<Longrightarrow> \<exists>r. num_of v = Some r"
  shows "\<exists>m y. min_loop best xs = Inr m \<and> num_of m = Some y
    \<and> (\<forall>v \<in> set (best # xs). \<exists>r. num_of v = Some r \<and> y \<le> r)
    \<and> (\<exists>v \<in> set (best # xs). num_of v = Some y)"
  using assms
proof (induction xs arbitrary: best b)
  case Nil
  then show ?case by simp
next
  case (Cons x xs)
  from Cons.prems(2) [of x] obtain r where r: "num_of x = Some r" by auto
  have lt: "py_lt x best = Inr (r < b)"
    by (rule py_lt_finite [OF r Cons.prems(1)])
  let ?best = "if r < b then x else best"
  have nb: "num_of ?best = Some (min r b)"
    using r Cons.prems(1) by (simp add: min_def)
  have step: "min_loop best (x # xs) = min_loop ?best xs"
    using lt by simp
  from Cons.IH [OF nb] Cons.prems(2)
  obtain m y where m: "min_loop ?best xs = Inr m" "num_of m = Some y"
    and all: "\<forall>v \<in> set (?best # xs). \<exists>r. num_of v = Some r \<and> y \<le> r"
    and ex: "\<exists>v \<in> set (?best # xs). num_of v = Some y"
    by (metis list.set_intros(2))
  from all nb have y: "y \<le> min r b" by auto
  have all': "\<forall>v \<in> set (best # x # xs). \<exists>r. num_of v = Some r \<and> y \<le> r"
  proof
    fix v
    assume "v \<in> set (best # x # xs)"
    then consider "v = best" | "v = x" | "v \<in> set xs" by auto
    then show "\<exists>r. num_of v = Some r \<and> y \<le> r"
    proof cases
      case 1
      then show ?thesis using Cons.prems(1) y by simp
    next
      case 2
      then show ?thesis using r y by simp
    next
      case 3
      then show ?thesis using all by simp
    qed
  qed
  have ex': "\<exists>v \<in> set (best # x # xs). num_of v = Some y"
    using ex by (cases "r < b") auto
  from m step all' ex' show ?case by simp
qed

lemma max_loop_finite:
  assumes "num_of best = Some b" and "\<And>v. v \<in> set xs \<Longrightarrow> \<exists>r. num_of v = Some r"
  shows "\<exists>m y. max_loop best xs = Inr m \<and> num_of m = Some y
    \<and> (\<forall>v \<in> set (best # xs). \<exists>r. num_of v = Some r \<and> r \<le> y)
    \<and> (\<exists>v \<in> set (best # xs). num_of v = Some y)"
  using assms
proof (induction xs arbitrary: best b)
  case Nil
  then show ?case by simp
next
  case (Cons x xs)
  from Cons.prems(2) [of x] obtain r where r: "num_of x = Some r" by auto
  have lt: "py_gt x best = Inr (b < r)"
    unfolding py_gt_def by (rule py_lt_finite [OF Cons.prems(1) r])
  let ?best = "if b < r then x else best"
  have nb: "num_of ?best = Some (max r b)"
    using r Cons.prems(1) by (simp add: max_def)
  have step: "max_loop best (x # xs) = max_loop ?best xs"
    using lt by simp
  from Cons.IH [OF nb] Cons.prems(2)
  obtain m y where m: "max_loop ?best xs = Inr m" "num_of m = Some y"
    and all: "\<forall>v \<in> set (?best # xs). \<exists>r. num_of v = Some r \<and> r \<le> y"
    and ex: "\<exists>v \<in> set (?best # xs). num_of v = Some y"
    by (metis list.set_intros(2))
  from all nb have y: "max r b \<le> y" by auto
  have all': "\<forall>v \<in> set (best # x # xs). \<exists>r. num_of v = Some r \<and> r \<le> y"
  proof
    fix v
    assume "v \<in> set (best # x # xs)"
    then consider "v = best" | "v = x" | "v \<in> set xs" by auto
    then show "\<exists>r. num_of v = Some r \<and> r \<le> y"
    proof cases
      case 1
      then show ?thesis using Cons.prems(1) y by simp
    next
      case 2
      then show ?thesis using r y by simp
    next
      case 3
      then show ?thesis using all by simp
    qed
  qed
  have ex': "\<exists>v \<in> set (best # x # xs). num_of v = Some y"
    using ex by (cases "b < r") auto
  from m step all' ex' show ?case by simp
qed

lemma clamp_item_total:
  assumes "map_of d k = Some v" and "num_of v = Some x"
  shows "\<exists>d'. clamp_item k lo hi d = Inr d'
    \<and> (\<forall>k'. map_of d' k' =
          (if k' = k
           then Some (if x < of_int lo then PInt lo else if of_int hi < x then PInt hi else v)
           else map_of d k'))"
  using assms
  by (simp add: clamp_item_def getitem_def bindE_def limit_action_finite map_of_setitem)

lemma reset_item_total:
  assumes "map_of d k = Some v"
  shows "\<exists>d'. reset_item k allowed d = Inr d'
    \<and> (\<forall>k'. map_of d' k' =
          (if k' = k then Some (if num_in v allowed then v else PInt 0) else map_of d k'))"
  using assms
  by (simp add: reset_item_def getitem_def bindE_def py_in_num_in map_of_setitem)

lemma in_range_num: "num_of v = Some r \<Longrightarrow> in_range lo hi v \<longleftrightarrow> lo \<le> r \<and> r \<le> hi"
  by (simp add: in_range_def)

lemma focus_bad_total:
  assumes f: "map_of d ''focus'' = Some f" and ok: "focus_checkable f"
  shows "focus_bad d = Inr (\<not> focus_in_range f)"
proof (cases "is_list f")
  case False
  then have "\<not> focus_in_range f" by (cases f) (simp_all add: focus_in_range_def)
  then show ?thesis using focus_bad_not_list [OF f False] by simp
next
  case True
  then obtain ys where ys: "f = PList ys" by (cases f) simp_all
  with ok have ne: "ys \<noteq> []" and fin: "list_all finite_number ys"
    by (simp_all add: focus_checkable_def)
  from ne obtain x xs where xs: "ys = x # xs" by (cases ys) simp_all
  from fin xs have all: "\<And>v. v \<in> set (x # xs) \<Longrightarrow> \<exists>r. num_of v = Some r"
    by (simp add: list_all_iff finite_number_def) blast
  from all [of x] obtain b where b: "num_of x = Some b" by auto
  have tl: "\<And>v. v \<in> set xs \<Longrightarrow> \<exists>r. num_of v = Some r" using all by simp
  from min_loop_finite [OF b tl]
  obtain lo y where lo: "min_loop x xs = Inr lo" "num_of lo = Some y"
    and lo_all: "\<forall>v \<in> set (x # xs). \<exists>r. num_of v = Some r \<and> y \<le> r"
    and lo_ex: "\<exists>v \<in> set (x # xs). num_of v = Some y"
    by blast
  from max_loop_finite [OF b tl]
  obtain hi z where hi: "max_loop x xs = Inr hi" "num_of hi = Some z"
    and hi_all: "\<forall>v \<in> set (x # xs). \<exists>r. num_of v = Some r \<and> r \<le> z"
    and hi_ex: "\<exists>v \<in> set (x # xs). num_of v = Some z"
    by blast
  have below: "py_lt lo (PInt (- 180)) = Inr (y < - 180)"
    using py_lt_finite [OF lo(2), of "PInt (- 180)" "- 180"] by simp
  have above: "py_gt hi (PInt 180) = Inr (180 < z)"
    unfolding py_gt_def using py_lt_finite [OF _ hi(2), of "PInt 180" "180"] by simp
  have range: "focus_in_range f \<longleftrightarrow> - 180 \<le> y \<and> z \<le> 180"
  proof
    assume "focus_in_range f"
    then have r: "\<And>v. v \<in> set (x # xs) \<Longrightarrow> in_range (- 180) 180 v"
      using ys xs by (auto simp: focus_in_range_def list_all_iff)
    from lo_ex obtain v where v: "v \<in> set (x # xs)" "num_of v = Some y" by blast
    from hi_ex obtain w where w: "w \<in> set (x # xs)" "num_of w = Some z" by blast
    from r [OF v(1)] v(2) have "- 180 \<le> y" by (simp add: in_range_num)
    moreover from r [OF w(1)] w(2) have "z \<le> 180" by (simp add: in_range_num)
    ultimately show "- 180 \<le> y \<and> z \<le> 180" by simp
  next
    assume yz: "- 180 \<le> y \<and> z \<le> 180"
    have "in_range (- 180) 180 v" if "v \<in> set (x # xs)" for v
    proof -
      from lo_all that obtain r where r: "num_of v = Some r" "y \<le> r" by blast
      from hi_all that r(1) have "r \<le> z" by fastforce
      with r yz show ?thesis by (simp add: in_range_num)
    qed
    then show "focus_in_range f"
      using ys xs by (simp add: focus_in_range_def list_all_iff)
  qed
  show ?thesis
    using f ys xs lo(1) hi(1) below above range
    by (simp add: focus_bad_def getitem_def bindE_def) linarith
qed

lemma reset_focus_total:
  assumes "map_of d ''focus'' = Some f" and "focus_checkable f"
  shows "\<exists>d'. reset_focus d = Inr d'
    \<and> (\<forall>k'. map_of d' k' =
          (if k' = ''focus'' then Some (if focus_in_range f then f else PInt 0) else map_of d k'))"
  using assms
  by (simp add: reset_focus_def focus_bad_total bindE_def map_of_setitem)

text \<open>
  Claim C4. On a dictionary whose steer, brake, accel and clutch are finite numbers,
  whose gear and meta are any values and whose focus is anything but a list that is
  empty or holds something else than finite numbers, \<^verbatim>\<open>limit_actions\<close> returns, and it
  leaves: steer at the bound -1 when it was below it, at the bound 1 when it was above,
  and as it was otherwise; brake, accel and clutch likewise with the bounds 0 and 1;
  gear as it was when it equals one of -1, 0, ..., 6 and at 0 otherwise; meta as it was
  when it equals 0 or 1 and at 0 otherwise; focus as it was when it is a list of numbers
  within [-180, 180] and at 0 otherwise.
\<close>

theorem limit_actions_rules:
  assumes "map_of a ''steer'' = Some steer" and "num_of steer = Some s"
    and "map_of a ''brake'' = Some brake" and "num_of brake = Some b"
    and "map_of a ''accel'' = Some accel" and "num_of accel = Some c"
    and "map_of a ''clutch'' = Some clutch" and "num_of clutch = Some l"
    and "map_of a ''gear'' = Some gear"
    and "map_of a ''meta'' = Some meta"
    and "map_of a ''focus'' = Some focus" and "focus_checkable focus"
  shows "\<exists>a'. limit_actions a = (a', None)
    \<and> map_of a' ''steer'' = Some (if s < - 1 then PInt (- 1) else if 1 < s then PInt 1 else steer)
    \<and> map_of a' ''brake'' = Some (if b < 0 then PInt 0 else if 1 < b then PInt 1 else brake)
    \<and> map_of a' ''accel'' = Some (if c < 0 then PInt 0 else if 1 < c then PInt 1 else accel)
    \<and> map_of a' ''clutch'' = Some (if l < 0 then PInt 0 else if 1 < l then PInt 1 else clutch)
    \<and> map_of a' ''gear'' = Some (if num_in gear [- 1, 0, 1, 2, 3, 4, 5, 6] then gear else PInt 0)
    \<and> map_of a' ''meta'' = Some (if num_in meta [0, 1] then meta else PInt 0)
    \<and> map_of a' ''focus'' = Some (if focus_in_range focus then focus else PInt 0)"
proof -
  from clamp_item_total [OF assms(1,2), of "- 1" 1]
  obtain d1 where s1: "clamp_item ''steer'' (- 1) 1 a = Inr d1"
    and m1: "\<And>k'. map_of d1 k' =
      (if k' = ''steer'' then Some (if s < - 1 then PInt (- 1) else if 1 < s then PInt 1 else steer)
       else map_of a k')"
    by auto
  have "map_of d1 ''brake'' = Some brake" using assms(3) by (simp add: m1)
  from clamp_item_total [OF this assms(4), of 0 1]
  obtain d2 where s2: "clamp_item ''brake'' 0 1 d1 = Inr d2"
    and m2: "\<And>k'. map_of d2 k' =
      (if k' = ''brake'' then Some (if b < 0 then PInt 0 else if 1 < b then PInt 1 else brake)
       else map_of d1 k')"
    by auto
  have "map_of d2 ''accel'' = Some accel" using assms(5) by (simp add: m1 m2)
  from clamp_item_total [OF this assms(6), of 0 1]
  obtain d3 where s3: "clamp_item ''accel'' 0 1 d2 = Inr d3"
    and m3: "\<And>k'. map_of d3 k' =
      (if k' = ''accel'' then Some (if c < 0 then PInt 0 else if 1 < c then PInt 1 else accel)
       else map_of d2 k')"
    by auto
  have "map_of d3 ''clutch'' = Some clutch" using assms(7) by (simp add: m1 m2 m3)
  from clamp_item_total [OF this assms(8), of 0 1]
  obtain d4 where s4: "clamp_item ''clutch'' 0 1 d3 = Inr d4"
    and m4: "\<And>k'. map_of d4 k' =
      (if k' = ''clutch'' then Some (if l < 0 then PInt 0 else if 1 < l then PInt 1 else clutch)
       else map_of d3 k')"
    by auto
  have "map_of d4 ''gear'' = Some gear" using assms(9) by (simp add: m1 m2 m3 m4)
  from reset_item_total [OF this, of "[- 1, 0, 1, 2, 3, 4, 5, 6]"]
  obtain d5 where s5: "reset_item ''gear'' [- 1, 0, 1, 2, 3, 4, 5, 6] d4 = Inr d5"
    and m5: "\<And>k'. map_of d5 k' =
      (if k' = ''gear'' then Some (if num_in gear [- 1, 0, 1, 2, 3, 4, 5, 6] then gear else PInt 0)
       else map_of d4 k')"
    by blast
  have "map_of d5 ''meta'' = Some meta" using assms(10) by (simp add: m1 m2 m3 m4 m5)
  from reset_item_total [OF this, of "[0, 1]"]
  obtain d6 where s6: "reset_item ''meta'' [0, 1] d5 = Inr d6"
    and m6: "\<And>k'. map_of d6 k' =
      (if k' = ''meta'' then Some (if num_in meta [0, 1] then meta else PInt 0)
       else map_of d5 k')"
    by blast
  have "map_of d6 ''focus'' = Some focus" using assms(11) by (simp add: m1 m2 m3 m4 m5 m6)
  from reset_focus_total [OF this assms(12)]
  obtain d7 where s7: "reset_focus d6 = Inr d7"
    and m7: "\<And>k'. map_of d7 k' =
      (if k' = ''focus'' then Some (if focus_in_range focus then focus else PInt 0)
       else map_of d6 k')"
    by blast
  have run: "limit_actions a = (d7, None)"
    by (simp add: limit_actions_def s1 s2 s3 s4 s5 s6 s7)
  have r1: "map_of d7 ''steer'' = Some (if s < - 1 then PInt (- 1) else if 1 < s then PInt 1 else steer)"
    by (simp add: m1 m2 m3 m4 m5 m6 m7)
  have r2: "map_of d7 ''brake'' = Some (if b < 0 then PInt 0 else if 1 < b then PInt 1 else brake)"
    by (simp add: m2 m3 m4 m5 m6 m7)
  have r3: "map_of d7 ''accel'' = Some (if c < 0 then PInt 0 else if 1 < c then PInt 1 else accel)"
    by (simp add: m3 m4 m5 m6 m7)
  have r4: "map_of d7 ''clutch'' = Some (if l < 0 then PInt 0 else if 1 < l then PInt 1 else clutch)"
    by (simp add: m4 m5 m6 m7)
  have r5: "map_of d7 ''gear'' = Some (if num_in gear [- 1, 0, 1, 2, 3, 4, 5, 6] then gear else PInt 0)"
    by (simp add: m5 m6 m7)
  have r6: "map_of d7 ''meta'' = Some (if num_in meta [0, 1] then meta else PInt 0)"
    by (simp add: m6 m7)
  have r7: "map_of d7 ''focus'' = Some (if focus_in_range focus then focus else PInt 0)"
    by (simp add: m7)
  from run r1 r2 r3 r4 r5 r6 r7 show ?thesis by blast
qed

theorem limit_actions_rules_witness:
  "(\<exists>a'. limit_actions example_actions = (a', None)
      \<and> map_of a' ''steer'' = Some (PInt 1) \<and> map_of a' ''brake'' = Some (PInt 0)
      \<and> map_of a' ''accel'' = Some (PFloat (1 / 2)) \<and> map_of a' ''clutch'' = Some (PInt 0)
      \<and> map_of a' ''gear'' = Some (PInt 0) \<and> map_of a' ''meta'' = Some (PInt 0)
      \<and> map_of a' ''focus'' = Some (PInt 0))
   \<and> (\<exists>a'. limit_actions example_below = (a', None)
      \<and> map_of a' ''steer'' = Some (PInt (- 1)) \<and> map_of a' ''brake'' = Some (PInt 0)
      \<and> map_of a' ''accel'' = Some (PInt 1) \<and> map_of a' ''clutch'' = Some (PInt 0)
      \<and> map_of a' ''gear'' = Some (PInt 0) \<and> map_of a' ''meta'' = Some (PInt 0)
      \<and> map_of a' ''focus'' = Some (PInt 0))"
proof
  show "\<exists>a'. limit_actions example_actions = (a', None)
      \<and> map_of a' ''steer'' = Some (PInt 1) \<and> map_of a' ''brake'' = Some (PInt 0)
      \<and> map_of a' ''accel'' = Some (PFloat (1 / 2)) \<and> map_of a' ''clutch'' = Some (PInt 0)
      \<and> map_of a' ''gear'' = Some (PInt 0) \<and> map_of a' ''meta'' = Some (PInt 0)
      \<and> map_of a' ''focus'' = Some (PInt 0)"
    using limit_actions_rules [of example_actions "PInt 5" 5 "PInt 0" 0 "PFloat (1 / 2)" "1 / 2"
        "PInt 0" 0 "PInt 9" "PInt 2" "PList [PInt 200]"]
    by (simp add: example_actions_def focus_checkable_def finite_number_def
        focus_in_range_def in_range_def num_in_def)
  show "\<exists>a'. limit_actions example_below = (a', None)
      \<and> map_of a' ''steer'' = Some (PInt (- 1)) \<and> map_of a' ''brake'' = Some (PInt 0)
      \<and> map_of a' ''accel'' = Some (PInt 1) \<and> map_of a' ''clutch'' = Some (PInt 0)
      \<and> map_of a' ''gear'' = Some (PInt 0) \<and> map_of a' ''meta'' = Some (PInt 0)
      \<and> map_of a' ''focus'' = Some (PInt 0)"
    using limit_actions_rules [of example_below "PFloat (- 3)" "- 3" "PFloat (- 1 / 2)" "- 1 / 2"
        "PInt 2" 2 "PInt (- 1)" "- 1" "PInt (- 2)" "PInt (- 1)" "PList [PInt (- 200), PInt 10]"]
    by (simp add: example_below_def focus_checkable_def finite_number_def
        focus_in_range_def in_range_def num_in_def)
qed

lemma limit_action_nan:
  "limit_action (PSpecial Nan) (PInt lo) (PInt hi) = Inr (PSpecial Nan)"
  by (simp add: limit_action_def bindE_def py_gt_def)

section \<open>Properties of the handshake\<close>

lemma restarts_simps:
  "restarts [] = 0"
  "restarts (Print s # evs) = restarts evs"
  "restarts (Server_restart # evs) = Suc (restarts evs)"
  "restarts (xs @ ys) = restarts xs + restarts ys"
  by (simp_all add: restarts_def)

lemma connect_loop_timeout_step:
  "fst (connect_loop port tries (Recv_error # script)) =
     Print (''Waiting for server on port '' @ str_int port)
     # (if tries - 1 = 0
        then [Print ''Server didn't answer, sending restart signal'', Server_restart]
        else [])
     @ fst (connect_loop port (tries - 1) script)"
  "snd (connect_loop port tries (Recv_error # script)) = snd (connect_loop port (tries - 1) script)"
  by (simp_all add: identify_def split: prod.splits)

lemma restarts_timeout_step:
  "restarts (fst (connect_loop port tries (Recv_error # script))) =
     (if tries = 1 then 1 else 0) + restarts (fst (connect_loop port (tries - 1) script))"
  by (simp add: connect_loop_timeout_step restarts_simps del: connect_loop.simps)

lemma turns_simps:
  "timeouts [] = 0"
  "ending [] = None"
  "ends_loop e \<Longrightarrow> timeouts (e # script) = 0"
  "ends_loop e \<Longrightarrow> ending (e # script) = Some e"
  "timeouts (Recv_error # script) = Suc (timeouts script)"
  "ending (Recv_error # script) = ending script"
  "\<not> contains identify s \<Longrightarrow> timeouts (Datagram s # script) = timeouts script"
  "\<not> contains identify s \<Longrightarrow> ending (Datagram s # script) = ending script"
  by (simp_all add: timeouts_def ending_def)

lemma connect_loop_run:
  "restarts (fst (connect_loop port tries script))
     = (if 0 < tries \<and> tries \<le> int (timeouts script) then 1 else 0)
   \<and> snd (connect_loop port tries script)
     = outcome_of (tries - int (timeouts script)) (ending script)"
proof (induction script arbitrary: tries)
  case Nil
  then show ?case by (simp add: restarts_simps turns_simps)
next
  case (Cons x script)
  show ?case
  proof (cases x)
    case Send_error
    then show ?thesis by (simp add: restarts_simps turns_simps)
  next
    case Recv_error
    have eq: "tries - 1 - int (timeouts script) = tries - (1 + int (timeouts script))"
      by simp
    from Cons.IH [of "tries - 1"] show ?thesis
      unfolding Recv_error
      by (auto simp: restarts_timeout_step connect_loop_timeout_step(2) turns_simps eq
          simp del: connect_loop.simps)
  next
    case Undecodable
    then show ?thesis by (simp add: restarts_simps turns_simps)
  next
    case (Datagram s)
    show ?thesis
    proof (cases "contains identify s")
      case True
      then show ?thesis using Datagram by (simp add: restarts_simps turns_simps)
    next
      case False
      then show ?thesis using Datagram Cons.IH [of tries] by (simp add: turns_simps)
    qed
  qed
qed

lemma connect_loop_timeouts:
  "snd (connect_loop port tries (replicate n Recv_error)) = Running (tries - int n)
   \<and> restarts (fst (connect_loop port tries (replicate n Recv_error)))
      = (if 0 < tries \<and> tries \<le> int n then 1 else 0)"
proof (induction n arbitrary: tries)
  case 0
  then show ?case by (simp add: restarts_simps)
next
  case (Suc n)
  from Suc.IH [of "tries - 1"] show ?case
    by (auto simp: restarts_timeout_step connect_loop_timeout_step(2) simp del: connect_loop.simps)
qed

text \<open>
  Claim C2, as the code has it. Whatever the network does, the handshake has restarted
  the simulator once when it has met three timeouts or more, in a row or not, and not at
  all before: the counter starts at 3, goes down by one at each timeout and is never set
  back. The loop ends at the first entry of the script that ends it: it returns after
  a reply that carries the marker, it exits the process with status -1 when the send
  fails, and it raises UnicodeDecodeError on a reply that is not UTF-8. A timeout never
  ends it: with no such entry it is still running, the counter at 3 less the number of
  timeouts.
\<close>

theorem connect_to_server_escalation:
  "restarts (fst (connect_to_server port script)) = (if 3 \<le> timeouts script then 1 else 0)
   \<and> snd (connect_to_server port script) = outcome_of (3 - int (timeouts script)) (ending script)"
  unfolding connect_to_server_def
  using connect_loop_run [of port 3 script]
  by auto

theorem connect_to_server_escalation_witness:
  "restarts (fst (connect_to_server 3001
      [Recv_error, Datagram ''hello'', Recv_error, Recv_error, Recv_error, Recv_error,
       Datagram ''***identified***'', Recv_error])) = 1
   \<and> snd (connect_to_server 3001
      [Recv_error, Datagram ''hello'', Recv_error, Recv_error, Recv_error, Recv_error,
       Datagram ''***identified***'', Recv_error]) = Returned
   \<and> restarts (fst (connect_to_server 3001 [Recv_error, Recv_error, Undecodable])) = 0
   \<and> snd (connect_to_server 3001 [Recv_error, Recv_error, Undecodable])
       = Raised UnicodeDecodeError
   \<and> snd (connect_to_server 3001 [Recv_error, Send_error]) = Exited (- 1)
   \<and> snd (connect_to_server 3001 [Recv_error, Recv_error, Recv_error, Recv_error])
       = Running (- 1)"
  using connect_to_server_escalation [of 3001
      "[Recv_error, Datagram ''hello'', Recv_error, Recv_error, Recv_error, Recv_error,
       Datagram ''***identified***'', Recv_error]"]
    connect_to_server_escalation [of 3001 "[Recv_error, Recv_error, Undecodable]"]
    connect_to_server_escalation [of 3001 "[Recv_error, Send_error]"]
    connect_to_server_escalation [of 3001 "[Recv_error, Recv_error, Recv_error, Recv_error]"]
  by (simp add: timeouts_def ending_def identify_def)

text \<open>
  The claim's second run of three timeouts restarts nothing: after six timeouts in a row
  the simulator has been restarted once, and the counter stands at -3.
\<close>

theorem connect_to_server_single_restart:
  "restarts (fst (connect_to_server 3001 (replicate 6 Recv_error))) = 1
   \<and> snd (connect_to_server 3001 (replicate 6 Recv_error)) = Running (- 3)"
  using connect_loop_timeouts [of 3001 3 6] by (simp add: connect_to_server_def)

section \<open>Properties of the off-track check\<close>

text \<open>
  Claim C7. On sensors whose trackPos is a number \<open>x\<close>, \<^verbatim>\<open>check_sensors\<close> prints its
  line and calls \<^verbatim>\<open>restart_race\<close> when the absolute value of \<open>x\<close> exceeds 1, and does
  nothing otherwise. The witness is the pair of the claim: 1.5 restarts the race, 0.9
  does not.
\<close>

theorem check_sensors_off_track:
  assumes "map_of sensors ''trackPos'' = Some v" and "num_of v = Some x"
  shows "check_sensors gui sensors
    = Inr (if 1 < \<bar>x\<bar> then Print ''out of track!'' # restart_race gui else [])"
proof (cases v)
  case (PSpecial s)
  with assms(2) have "s = Neg_zero" and "x = 0" by (cases s; simp)+
  with PSpecial assms(1) show ?thesis
    by (simp add: check_sensors_def bindE_def getitem_def py_gt_def)
qed (use assms in \<open>auto simp: check_sensors_def bindE_def getitem_def py_gt_def split: if_splits\<close>)

theorem check_sensors_off_track_witness:
  "check_sensors True [(''trackPos'', PFloat (3 / 2))]
     = Inr [Print ''out of track!'', Client_send_restart_request, Client_restart]
   \<and> check_sensors True [(''trackPos'', PFloat (9 / 10))] = Inr []"
  using check_sensors_off_track [of "[(''trackPos'', PFloat (3 / 2))]" "PFloat (3 / 2)" "3 / 2" True]
    check_sensors_off_track [of "[(''trackPos'', PFloat (9 / 10))]" "PFloat (9 / 10)" "9 / 10" True]
  by (simp add: restart_race_def)

section \<open>Properties of the decoder\<close>

subsection \<open>Stripping and splitting\<close>

lemma not_space_parens [simp]: "\<not> is_space (CHR ''('')" "\<not> is_space (CHR '')'')"
  by (simp_all add: is_space_def)

lemma is_space_blank [simp]: "is_space (CHR '' '')"
  by (simp add: is_space_def)

lemma rstrip_with_snoc:
  "rstrip_with p (s @ [c]) = (if p c then rstrip_with p s else s @ [c])"
  by (simp add: rstrip_with_def)

lemma rstrip_with_Nil [simp]: "rstrip_with p [] = []"
  by (simp add: rstrip_with_def)

lemma strip_keep:
  "s \<noteq> [] \<Longrightarrow> \<not> is_space (hd s) \<Longrightarrow> \<not> is_space (last s) \<Longrightarrow> strip s = s"
proof -
  assume a: "s \<noteq> []" "\<not> is_space (hd s)" "\<not> is_space (last s)"
  then have "dropWhile is_space s = s" by (cases s) auto
  moreover from a have "rstrip_with is_space s = s"
    by (cases s rule: rev_cases) (auto simp: rstrip_with_snoc)
  ultimately show ?thesis by (simp add: strip_def)
qed

lemma split_from_absent:
  "c0 \<notin> set s \<Longrightarrow> split_from (c0 # sep) cur s = [cur @ s]"
  by (induction s arbitrary: cur) auto

lemma split_from_group:
  "CHR '')'' \<notin> set g \<Longrightarrow>
   split_from '')('' cur (g @ '')('' @ rest) = (cur @ g) # split_from '')('' [] rest"
  by (induction g arbitrary: cur) auto

lemma split_from_blank:
  "CHR '' '' \<notin> set a \<Longrightarrow>
   split_from '' '' cur (a @ CHR '' '' # rest) = (cur @ a) # split_from '' '' [] rest"
  by (induction a arbitrary: cur) auto

lemma plain_tokenD:
  assumes "plain_token t"
  shows "t \<noteq> []" and "\<And>c. c \<in> set t \<Longrightarrow> \<not> is_space c \<and> c \<noteq> CHR ''('' \<and> c \<noteq> CHR '')''"
    and "CHR '' '' \<notin> set t" and "CHR '')'' \<notin> set t" and "CHR ''('' \<notin> set t"
proof -
  from assms show "t \<noteq> []" by (simp add: plain_token_def)
  from assms have all: "\<forall>c \<in> set t. \<not> is_space c \<and> c \<noteq> CHR ''('' \<and> c \<noteq> CHR '')''"
    by (simp add: plain_token_def list_all_iff)
  then show "\<And>c. c \<in> set t \<Longrightarrow> \<not> is_space c \<and> c \<noteq> CHR ''('' \<and> c \<noteq> CHR '')''"
    by blast
  from all is_space_blank show "CHR '' '' \<notin> set t" by blast
  from all show "CHR '')'' \<notin> set t" by blast
  from all show "CHR ''('' \<notin> set t" by blast
qed

lemma plain_hd_last:
  assumes "plain_token t"
  shows "\<not> is_space (hd t)" and "hd t \<noteq> CHR ''(''" and "\<not> is_space (last t)" and "last t \<noteq> CHR '')''"
proof -
  note td = plain_tokenD [OF assms]
  have "hd t \<in> set t" "last t \<in> set t" using td(1) by simp_all
  with td(2) show "\<not> is_space (hd t)" and "hd t \<noteq> CHR ''(''"
    and "\<not> is_space (last t)" and "last t \<noteq> CHR '')''" by blast+
qed

subsection \<open>Joining and splitting\<close>

lemma join_Cons: "xs \<noteq> [] \<Longrightarrow> join sep (x # xs) = x @ sep @ join sep xs"
  by (cases xs) simp_all

lemma concat_groups:
  "xs \<noteq> [] \<Longrightarrow> concat (map (\<lambda>i. ''('' @ i @ '')'') xs) = ''('' @ join '')('' xs @ '')''"
proof (induction xs)
  case Nil
  then show ?case by simp
next
  case (Cons x xs)
  show ?case
  proof (cases "xs = []")
    case True
    then show ?thesis by simp
  next
    case False
    with Cons.IH show ?thesis by (simp add: join_Cons)
  qed
qed

lemma join_Nil_last: "join sep xs = [] \<Longrightarrow> xs \<noteq> [] \<Longrightarrow> last xs = []"
  by (induction sep xs rule: join.induct) auto

lemma join_not_Nil: "xs \<noteq> [] \<Longrightarrow> hd xs \<noteq> [] \<Longrightarrow> join sep xs \<noteq> []"
  by (induction sep xs rule: join.induct) auto

lemma hd_join: "xs \<noteq> [] \<Longrightarrow> hd xs \<noteq> [] \<Longrightarrow> hd (join sep xs) = hd (hd xs)"
  by (induction sep xs rule: join.induct) auto

lemma last_join:
  "xs \<noteq> [] \<Longrightarrow> last xs \<noteq> [] \<Longrightarrow> last (join sep xs) = last (last xs)"
proof (induction sep xs rule: join.induct)
  case (1 sep)
  then show ?case by simp
next
  case (2 sep x)
  then show ?case by simp
next
  case (3 sep x y ys)
  from 3(3) have "join sep (y # ys) \<noteq> []"
    using join_Nil_last [of sep "y # ys"] by auto
  with 3 show ?case by simp
qed

lemma set_join: "c \<in> set (join sep xs) \<Longrightarrow> c \<in> set sep \<or> (\<exists>x \<in> set xs. c \<in> set x)"
  by (induction sep xs rule: join.induct) auto

lemma split_join_groups:
  "xs \<noteq> [] \<Longrightarrow> (\<And>i. i \<in> set xs \<Longrightarrow> CHR '')'' \<notin> set i) \<Longrightarrow>
   split_from '')('' cur (join '')('' xs) = (cur @ hd xs) # tl xs"
proof (induction xs arbitrary: cur)
  case Nil
  then show ?case by simp
next
  case (Cons x xs)
  have x: "CHR '')'' \<notin> set x" using Cons.prems(2) by simp
  show ?case
  proof (cases "xs = []")
    case True
    then show ?thesis using split_from_absent [OF x, of "''(''" cur] by simp
  next
    case False
    have "split_from '')('' [] (join '')('' xs) = ([] @ hd xs) # tl xs"
      by (rule Cons.IH [OF False]) (use Cons.prems(2) in simp)
    then have "split_from '')('' [] (join '')('' xs) = xs" using False by simp
    moreover have "join '')('' (x # xs) = x @ '')('' @ join '')('' xs"
      by (rule join_Cons [OF False])
    ultimately show ?thesis using split_from_group [OF x, of cur "join '')('' xs"] by simp
  qed
qed

lemma split_join_blanks:
  "xs \<noteq> [] \<Longrightarrow> (\<And>i. i \<in> set xs \<Longrightarrow> CHR '' '' \<notin> set i) \<Longrightarrow>
   split_from '' '' cur (join '' '' xs) = (cur @ hd xs) # tl xs"
proof (induction xs arbitrary: cur)
  case Nil
  then show ?case by simp
next
  case (Cons x xs)
  have x: "CHR '' '' \<notin> set x" using Cons.prems(2) by simp
  show ?case
  proof (cases "xs = []")
    case True
    then show ?thesis using split_from_absent [OF x, of "[]" cur] by simp
  next
    case False
    have "split_from '' '' [] (join '' '' xs) = ([] @ hd xs) # tl xs"
      by (rule Cons.IH [OF False]) (use Cons.prems(2) in simp)
    then have "split_from '' '' [] (join '' '' xs) = xs" using False by simp
    moreover have "join '' '' (x # xs) = x @ '' '' @ join '' '' xs"
      by (rule join_Cons [OF False])
    ultimately show ?thesis using split_from_blank [OF x, of cur "join '' '' xs"] by simp
  qed
qed

lemma update_fresh: "k \<notin> fst ` set al \<Longrightarrow> AList.update k v al = al @ [(k, v)]"
  by (induction al) auto

lemma lstrip_chars_keep: "s \<noteq> [] \<Longrightarrow> hd s \<notin> set chars \<Longrightarrow> lstrip_chars chars s = s"
  by (cases s) (simp_all add: lstrip_chars_def)

lemma rstrip_chars_keep: "s \<noteq> [] \<Longrightarrow> last s \<notin> set chars \<Longrightarrow> rstrip_chars chars s = s"
  by (cases s rule: rev_cases) (simp_all add: rstrip_chars_def rstrip_with_def)

subsection \<open>Datagrams of plain groups\<close>

lemma segment_props:
  assumes k: "plain_token (fst g)" and v: "list_all plain_token (snd g)"
  shows "segment_of g \<noteq> []"
    and "hd (segment_of g) = hd (fst g)"
    and "\<exists>t. plain_token t \<and> last (segment_of g) = last t"
    and "CHR '')'' \<notin> set (segment_of g)"
    and "py_split '' '' (segment_of g) = fst g # snd g"
proof -
  note kd = plain_tokenD [OF k]
  let ?toks = "fst g # snd g"
  have plain: "\<And>t. t \<in> set ?toks \<Longrightarrow> plain_token t"
    using k v by (auto simp: list_all_iff)
  show "segment_of g \<noteq> []"
    unfolding segment_of_def using kd(1) by (intro join_not_Nil) simp_all
  show "hd (segment_of g) = hd (fst g)"
    unfolding segment_of_def using kd(1) hd_join [of ?toks "'' ''"] by simp
  have lt: "plain_token (last ?toks)" using plain [of "last ?toks"] by simp
  then have "last ?toks \<noteq> []" by (rule plain_tokenD(1))
  then have "last (segment_of g) = last (last ?toks)"
    unfolding segment_of_def by (intro last_join) simp
  with lt show "\<exists>t. plain_token t \<and> last (segment_of g) = last t" by blast
  show "CHR '')'' \<notin> set (segment_of g)"
  proof
    assume "CHR '')'' \<in> set (segment_of g)"
    from set_join [OF this [unfolded segment_of_def]]
    obtain t where "t \<in> set ?toks" "CHR '')'' \<in> set t" by auto
    with plain [of t] plain_tokenD(4) [of t] show False by blast
  qed
  have "\<And>t. t \<in> set ?toks \<Longrightarrow> CHR '' '' \<notin> set t"
    using plain plain_tokenD(3) by blast
  then have "split_from '' '' [] (join '' '' ?toks) = ([] @ hd ?toks) # tl ?toks"
    by (intro split_join_blanks) simp_all
  then show "py_split '' '' (segment_of g) = fst g # snd g"
    by (simp add: py_split_def segment_of_def)
qed

lemma parse_loop_segments:
  assumes "list_all (\<lambda>g. plain_token (fst g) \<and> list_all plain_token (snd g)) gs"
    and "distinct (map fst acc @ map fst gs)"
  shows "parse_loop (map segment_of gs) acc = Inr (acc @ readings gs)"
  using assms
proof (induction gs arbitrary: acc)
  case Nil
  then show ?case by (simp add: readings_def)
next
  case (Cons g gs)
  from Cons.prems(1) have k: "plain_token (fst g)" and v: "list_all plain_token (snd g)"
    and rest: "list_all (\<lambda>g. plain_token (fst g) \<and> list_all plain_token (snd g)) gs"
    by simp_all
  have fresh: "fst g \<notin> fst ` set acc" using Cons.prems(2) by auto
  let ?acc = "acc @ [(fst g, destringify (PList (map PStr (snd g))))]"
  have step: "parse_loop (segment_of g # map segment_of gs) acc
    = parse_loop (map segment_of gs) ?acc"
    by (simp add: segment_props(5) [OF k v] setitem_def update_fresh [OF fresh])
  have "distinct (map fst ?acc @ map fst gs)" using Cons.prems(2) by auto
  from Cons.IH [OF rest this] step show ?case by (simp add: readings_def)
qed

lemma datagram_body:
  assumes "plain_groups gs"
  shows "\<exists>J. datagram_of gs = ''('' @ J @ '')'' \<and> J \<noteq> [] \<and> hd J \<noteq> CHR ''(''
    \<and> \<not> is_space (last J) \<and> last J \<noteq> CHR '')''
    \<and> py_split '')('' J = map segment_of gs"
proof -
  from assms have ne: "gs \<noteq> []"
    and all: "list_all (\<lambda>g. plain_token (fst g) \<and> list_all plain_token (snd g)) gs"
    by (simp_all add: plain_groups_def)
  have each: "\<And>g. g \<in> set gs \<Longrightarrow> plain_token (fst g) \<and> list_all plain_token (snd g)"
    using all by (simp add: list_all_iff)
  let ?segs = "map segment_of gs"
  define J where "J = join '')('' ?segs"
  have segs_ne: "?segs \<noteq> []" using ne by simp
  have m: "map (\<lambda>g. ''('' @ segment_of g @ '')'') gs = map (\<lambda>i. ''('' @ i @ '')'') ?segs"
    by simp
  have E: "datagram_of gs = ''('' @ J @ '')''"
    unfolding datagram_of_def m J_def by (rule concat_groups [OF segs_ne])
  have first: "hd gs \<in> set gs" and final: "last gs \<in> set gs"
    using ne by simp_all
  have hd_seg: "hd ?segs = segment_of (hd gs)"
    using ne by (simp add: hd_map)
  have last_seg: "last ?segs = segment_of (last gs)"
    using ne by (simp add: last_map)
  have hd_ne: "hd ?segs \<noteq> []"
    using segment_props(1) each [OF first] hd_seg by simp
  have last_ne: "last ?segs \<noteq> []"
    using segment_props(1) each [OF final] last_seg by simp
  have J_ne: "J \<noteq> []"
    unfolding J_def by (rule join_not_Nil [OF segs_ne hd_ne])
  have "hd J = hd (fst (hd gs))"
    unfolding J_def using hd_join [OF segs_ne hd_ne] segment_props(2) each [OF first] hd_seg by simp
  then have hd_J: "hd J \<noteq> CHR ''(''"
    using plain_hd_last(2) each [OF first] by simp
  obtain t where t: "plain_token t" "last (segment_of (last gs)) = last t"
    using segment_props(3) each [OF final] by blast
  have "last J = last t"
    unfolding J_def using last_join [OF segs_ne last_ne] last_seg t(2) by simp
  then have last_J: "\<not> is_space (last J)" "last J \<noteq> CHR '')''"
    using plain_hd_last(3,4) [OF t(1)] by simp_all
  have no_close: "\<And>i. i \<in> set ?segs \<Longrightarrow> CHR '')'' \<notin> set i"
    using segment_props(4) each by auto
  have "split_from '')('' [] J = ([] @ hd ?segs) # tl ?segs"
    unfolding J_def by (rule split_join_groups [OF segs_ne no_close])
  then have sp: "py_split '')('' J = ?segs"
    using segs_ne by (simp add: py_split_def)
  from E J_ne hd_J last_J sp show ?thesis by blast
qed

lemma parse_body:
  assumes "plain_groups gs" and "J \<noteq> []" and "hd J \<noteq> CHR ''(''"
    and "\<not> is_space (last J)" and "last J \<noteq> CHR '')''"
    and "py_split '')('' J = map segment_of gs"
  shows "parse_loop (py_split '')('' (rstrip_chars '')'' (lstrip_chars ''('' (strip (''('' @ J))))) []
      = Inr (readings gs)"
    and "parse_loop (py_split '')('' (rstrip_chars '')'' (lstrip_chars ''(''
        (strip (''('' @ J @ '')''))))) []
      = Inr (readings gs)"
proof -
  from assms(1) have dist: "distinct (map fst gs)"
    and all: "list_all (\<lambda>g. plain_token (fst g) \<and> list_all plain_token (snd g)) gs"
    by (simp_all add: plain_groups_def)
  have s1: "strip (''('' @ J @ '')'') = ''('' @ J @ '')''"
    by (rule strip_keep) simp_all
  have s2: "strip (''('' @ J) = ''('' @ J"
    by (rule strip_keep) (use assms(2,4) in simp_all)
  have l: "lstrip_chars ''('' (''('' @ J) = J"
    using lstrip_chars_keep [OF assms(2), of "''(''"] assms(3) by (simp add: lstrip_chars_def)
  have l2: "lstrip_chars ''('' (''('' @ J @ '')'') = J @ '')''"
    using lstrip_chars_keep [of "J @ '')''" "''(''"] assms(2,3) by (simp add: lstrip_chars_def)
  have r: "rstrip_chars '')'' J = J"
    by (rule rstrip_chars_keep [OF assms(2)]) (use assms(5) in simp)
  have r2: "rstrip_chars '')'' (J @ '')'') = J"
    using r by (simp add: rstrip_chars_def rstrip_with_snoc)
  have loop: "parse_loop (map segment_of gs) [] = Inr ([] @ readings gs)"
    by (rule parse_loop_segments [OF all]) (use dist in simp)
  show "parse_loop (py_split '')('' (rstrip_chars '')'' (lstrip_chars ''('' (strip (''('' @ J))))) []
      = Inr (readings gs)"
    unfolding s2 l r assms(6) using loop by simp
  show "parse_loop (py_split '')('' (rstrip_chars '')'' (lstrip_chars ''(''
        (strip (''('' @ J @ '')''))))) []
      = Inr (readings gs)"
    unfolding s1 l2 r2 assms(6) using loop by simp
qed

lemma parse_datagram:
  assumes "plain_groups gs"
  shows "parse_server_string (datagram_of gs) = Inr (readings gs)"
    and "parse_server_string (datagram_of gs @ [c]) = Inr (readings gs)"
proof -
  from datagram_body [OF assms] obtain J where E: "datagram_of gs = ''('' @ J @ '')''"
    and J: "J \<noteq> []" "hd J \<noteq> CHR ''(''" "\<not> is_space (last J)" "last J \<noteq> CHR '')''"
      "py_split '')('' J = map segment_of gs"
    by blast
  note body = parse_body [OF assms J]
  have s1: "strip (''('' @ J @ '')'') = ''('' @ J @ '')''"
    by (rule strip_keep) simp_all
  have b: "butlast (''('' @ J @ '')'') = ''('' @ J"
    by (simp add: butlast_append)
  show "parse_server_string (datagram_of gs) = Inr (readings gs)"
    unfolding E parse_server_string_def Let_def s1 b by (rule body(1))
  have s3: "strip ((''('' @ J @ '')'') @ [c])
      = (if is_space c then ''('' @ J @ '')'' else (''('' @ J @ '')'') @ [c])"
    by (simp add: strip_def rstrip_with_def)
  have b3: "butlast (strip (''('' @ J @ '')'' @ [c]))
      = (if is_space c then ''('' @ J else ''('' @ J @ '')'')"
    using s3 by (simp add: butlast_append)
  show "parse_server_string (datagram_of gs @ [c]) = Inr (readings gs)"
  proof (cases "is_space c")
    case True
    have "butlast (strip (datagram_of gs @ [c])) = ''('' @ J"
      unfolding E using b3 True by simp
    then show ?thesis
      unfolding parse_server_string_def Let_def using body(1) by simp
  next
    case False
    have "butlast (strip (datagram_of gs @ [c])) = ''('' @ J @ '')''"
      unfolding E using b3 False by simp
    then show ?thesis
      unfolding parse_server_string_def Let_def using body(2) by simp
  qed
qed

lemma map_of_readings:
  assumes "distinct (map fst gs)" and "(k, toks) \<in> set gs"
  shows "map_of (readings gs) k = Some (destringify (PList (map PStr toks)))"
proof -
  have "distinct (map fst (readings gs))"
    using assms(1) by (simp add: readings_def comp_def)
  moreover have "(k, destringify (PList (map PStr toks))) \<in> set (readings gs)"
    using assms(2) by (force simp: readings_def)
  ultimately show ?thesis by (rule map_of_is_SomeI)
qed

lemma example_strip:
  "butlast (strip (''(angle 0.1)(track 1.0 2.0 3.0)'' @ [c]))
   = (if is_space c then ''(angle 0.1)(track 1.0 2.0 3.0'' else ''(angle 0.1)(track 1.0 2.0 3.0)'')"
  by (simp add: strip_def rstrip_with_def)

lemma example_rest1:
  "parse_loop (py_split '')('' (rstrip_chars '')'' (lstrip_chars ''(''
      (strip ''(angle 0.1)(track 1.0 2.0 3.0'')))) []
   = Inr [(''angle'', PFloat (1 / 10)), (''track'', PList [PFloat 1, PFloat 2, PFloat 3])]"
  by code_simp

lemma example_rest2:
  "parse_loop (py_split '')('' (rstrip_chars '')'' (lstrip_chars ''(''
      (strip ''(angle 0.1)(track 1.0 2.0 3.0)'')))) []
   = Inr [(''angle'', PFloat (1 / 10)), (''track'', PList [PFloat 1, PFloat 2, PFloat 3])]"
  by code_simp

subsection \<open>The decode example\<close>

text \<open>
  Claim C1, as the code has it. \<^verbatim>\<open>parse_server_string\<close> strips the white space and
  then exactly one character. On the text of the claim, the line feed goes with the white
  space and the one character is the last star of the marker: the rest of the marker stays
  in the last token of track, which is not a number and is kept as text. On the two groups
  followed by one terminator character, whichever it is, the result is the record of the
  claim.
\<close>

theorem parse_server_string_example:
  "parse_server_string (''(angle 0.1)(track 1.0 2.0 3.0)***identified***'' @ [CHR 0x0A])
     = Inr [(''angle'', PFloat (1 / 10)),
            (''track'', PList [PFloat 1, PFloat 2, PStr ''3.0)***identified**''])]
   \<and> (\<forall>c. parse_server_string (''(angle 0.1)(track 1.0 2.0 3.0)'' @ [c])
     = Inr [(''angle'', PFloat (1 / 10)), (''track'', PList [PFloat 1, PFloat 2, PFloat 3])])"
proof
  show "parse_server_string (''(angle 0.1)(track 1.0 2.0 3.0)***identified***'' @ [CHR 0x0A])
     = Inr [(''angle'', PFloat (1 / 10)),
            (''track'', PList [PFloat 1, PFloat 2, PStr ''3.0)***identified**''])]"
    by code_simp
  show "\<forall>c. parse_server_string (''(angle 0.1)(track 1.0 2.0 3.0)'' @ [c])
     = Inr [(''angle'', PFloat (1 / 10)), (''track'', PList [PFloat 1, PFloat 2, PFloat 3])]"
  proof
    fix c
    show "parse_server_string (''(angle 0.1)(track 1.0 2.0 3.0)'' @ [c])
     = Inr [(''angle'', PFloat (1 / 10)), (''track'', PList [PFloat 1, PFloat 2, PFloat 3])]"
      unfolding parse_server_string_def Let_def example_strip
      using example_rest1 example_rest2 by (cases "is_space c") simp_all
  qed
qed

text \<open>The record of the claim is not what the text of the claim decodes to.\<close>

theorem parse_server_string_example_counterexample:
  "parse_server_string (''(angle 0.1)(track 1.0 2.0 3.0)***identified***'' @ [CHR 0x0A])
   \<noteq> Inr [(''angle'', PFloat (1 / 10)), (''track'', PList [PFloat 1, PFloat 2, PFloat 3])]"
  by code_simp

subsection \<open>A token that is not a number\<close>

text \<open>
  Claim C5, as the code has it. Decoding does not fail on a value that is not a number.
  For a datagram of plain groups followed by one more character, whichever it is,
  \<^verbatim>\<open>parse_server_string\<close> returns the record of the readings of the groups, in their
  order; under the key of a group that has exactly one token, a token that \<^verbatim>\<open>float\<close>
  rejects, the record holds the token itself, as text.
\<close>

theorem parse_server_string_keeps_text:
  assumes "plain_groups gs" and "(k, [t]) \<in> set gs" and "float_of t = None"
  shows "parse_server_string (datagram_of gs @ [c]) = Inr (readings gs)
    \<and> map_of (readings gs) k = Some (PStr t)"
proof
  show "parse_server_string (datagram_of gs @ [c]) = Inr (readings gs)"
    by (rule parse_datagram(2) [OF assms(1)])
  from assms(1) have "distinct (map fst gs)" by (simp add: plain_groups_def)
  from map_of_readings [OF this assms(2)] assms(3)
  show "map_of (readings gs) k = Some (PStr t)" by simp
qed

theorem parse_server_string_keeps_text_witness:
  "parse_server_string (''(angle 0.1)(name abc)(track 1.0 2.0)'' @ [CHR 0x0A])
     = Inr [(''angle'', PFloat (1 / 10)), (''name'', PStr ''abc''),
            (''track'', PList [PFloat 1, PFloat 2])]
   \<and> map_of [(''angle'', PFloat (1 / 10)), (''name'', PStr ''abc''),
            (''track'', PList [PFloat 1, PFloat 2])] ''name'' = Some (PStr ''abc'')"
proof -
  let ?gs = "[(''angle'', [''0.1'']), (''name'', [''abc'']), (''track'', [''1.0'', ''2.0''])]"
  have g: "plain_groups ?gs"
    by (simp add: plain_groups_def plain_token_def is_space_def)
  have f: "float_of ''abc'' = None" by code_simp
  have d: "datagram_of ?gs = ''(angle 0.1)(name abc)(track 1.0 2.0)''"
    by (simp add: datagram_of_def segment_of_def)
  have r: "readings ?gs = [(''angle'', PFloat (1 / 10)), (''name'', PStr ''abc''),
            (''track'', PList [PFloat 1, PFloat 2])]"
    by code_simp
  from parse_server_string_keeps_text [OF g _ f, of "''name''" "CHR 0x0A"]
  show ?thesis unfolding d r by simp
qed

text \<open>The token abc is kept as text; no error is raised.\<close>

theorem parse_server_string_keeps_text_counterexample:
  "parse_server_string (''(angle abc)'' @ [CHR 0x00]) = Inr [(''angle'', PStr ''abc'')]"
  by code_simp

end
